theory Spec2Isabelle
  imports Main "HOL-Library.AList"
begin

section \<open>Data model of pkg/controller/controller.go\<close>

text \<open>
  The controller talks to collaborators that live outside the repository: the kind
  provider, the HTTP client, client-go, the delegated controllers, the container runtime
  and the clock. They are an environment \<open>env\<close> of oracles. Every call of a collaborator
  is numbered (the field \<open>step\<close> of the world), and an oracle answers the call with that
  number, so the environment may answer every call differently. The world also holds a
  logical clock in seconds; a call takes \<open>latency\<close> seconds, a sleep its duration. The
  process-level context fires at the instant \<open>cancel_at\<close> (never, when \<open>None\<close>).
  Every effect is appended to the \<open>trace\<close> of the world.
\<close>

datatype error =
    ErrExternal string
  | ErrCanceled
  | ErrNoClientset
  | ErrWaitTimeout

datatype rest_config = RestConfig (Host: string)

datatype kube_client = KubeClient rest_config

datatype cloud = Cloud string

datatype informer_factory = InformerFactory kube_client

datatype service_controller = ServiceController cloud kube_client string

datatype node_controller = NodeController kube_client cloud

record http_response =
  StatusCode :: nat
  BodyData :: string
  BodyErr :: "error option"

text \<open>
  The struct \<open>ccm\<close>. The \<open>context.CancelFunc\<close> is the number of the child context that
  \<open>context.WithCancel\<close> made; calling it is the event \<open>EvCancel\<close> of that number.
\<close>

record ccm =
  factory :: informer_factory
  serviceController :: service_controller
  nodeController :: node_controller
  cancelFn :: nat

text \<open>
  The struct \<open>Controller\<close>. The Go map \<open>clusters\<close> is an association list with one entry
  per key; \<open>range\<close> over a Go map visits the entries in an unspecified order, here the
  order of the list. The field \<open>kind\<close> is the provider of the environment.
\<close>

record Controller =
  clusters :: "(string \<times> ccm) list"

datatype event =
    EvLog string
  | EvList
  | EvKubeConfig string bool
  | EvHttpGet string
  | EvReadAll string
  | EvBodyClose
  | EvSleep nat
  | EvTick nat
  | EvHealthz kube_client
  | EvProviderNew string
  | EvServiceNew string
  | EvNodeNew string
  | EvServiceRun string nat
  | EvNodeRun string nat
  | EvInformersStart string nat
  | EvCancel nat
  | EvListByLabel string
  | EvDelete string

record env =
  cancel_at :: "nat option"
  latency :: "nat \<Rightarrow> nat"
  kind_List :: "nat \<Rightarrow> string list \<times> error option"
  kind_KubeConfig :: "nat \<Rightarrow> string \<Rightarrow> bool \<Rightarrow> error + string"
  RESTConfigFromKubeConfig :: "string \<Rightarrow> error + rest_config"
  http_Get :: "nat \<Rightarrow> string \<Rightarrow> error + http_response"
  NewForConfig :: "rest_config \<Rightarrow> error option"
  healthz_Get :: "nat \<Rightarrow> kube_client \<Rightarrow> nat option"
  servicecontroller_New :: "nat \<Rightarrow> string \<Rightarrow> error option"
  NewCloudNodeController :: "nat \<Rightarrow> string \<Rightarrow> error option"
  NodeCCMLabelKey :: string
  container_ListByLabel :: "nat \<Rightarrow> string \<Rightarrow> string list \<times> error option"
  container_Delete :: "nat \<Rightarrow> string \<Rightarrow> error option"

record world =
  now :: nat
  step :: nat
  next_ctx :: nat
  trace :: "event list"

definition emit :: "event \<Rightarrow> world \<Rightarrow> world" where
  "emit ev w = w\<lparr>trace := trace w @ [ev]\<rparr>"

text \<open>A call of a collaborator: it is recorded, takes its latency and uses up one call number.\<close>

definition call :: "env \<Rightarrow> event \<Rightarrow> world \<Rightarrow> world" where
  "call e ev w = w\<lparr>now := now w + latency e (step w), step := Suc (step w),
                   trace := trace w @ [ev]\<rparr>"

text \<open>The non-blocking \<open>select { case <-ctx.Done(): ...; default: }\<close> on the process-level context.\<close>

definition ctx_Done :: "env \<Rightarrow> world \<Rightarrow> bool" where
  "ctx_Done e w = (case cancel_at e of None \<Rightarrow> False | Some t \<Rightarrow> t \<le> now w)"

text \<open>\<open>time.Sleep(d)\<close> takes no context: it pauses for \<open>d\<close> seconds.\<close>

definition time_Sleep :: "nat \<Rightarrow> world \<Rightarrow> world" where
  "time_Sleep d w = w\<lparr>now := now w + d, trace := trace w @ [EvSleep d]\<rparr>"

section \<open>probeHTTP\<close>

text \<open>
  \<open>client.Get\<close> answers with a transport error or with a response; \<open>io.ReadAll\<close> reads the
  body up to its end (or up to the read error \<open>BodyErr\<close>), its result is dropped; the
  deferred \<open>resp.Body.Close()\<close> runs last.
\<close>

definition probeHTTP :: "env \<Rightarrow> string \<Rightarrow> world \<Rightarrow> bool \<times> world" where
  "probeHTTP e address w =
     (let w1 = emit (EvLog ''probe HTTP address'') w;
          w2 = call e (EvHttpGet address) w1
      in case http_Get e (step w1) address of
           Inl err \<Rightarrow> (False, emit (EvLog ''Failed to connect to HTTP address'') w2)
         | Inr resp \<Rightarrow> (True, emit EvBodyClose (emit (EvReadAll (BodyData resp)) w2)))"

section \<open>cleanup\<close>

fun delete_containers :: "env \<Rightarrow> string list \<Rightarrow> world \<Rightarrow> world" where
  "delete_containers e [] w = w"
| "delete_containers e (i # ids) w =
     (case container_Delete e (step w) i of
        Some err \<Rightarrow> delete_containers e ids (emit (EvLog ''can't delete container'') (call e (EvDelete i) w))
      | None \<Rightarrow> delete_containers e ids (call e (EvDelete i) w))"

definition cleanup :: "env \<Rightarrow> world \<Rightarrow> world" where
  "cleanup e w =
     (let w1 = call e (EvListByLabel (NodeCCMLabelKey e)) w
      in case container_ListByLabel e (step w) (NodeCCMLabelKey e) of
           (containers, Some err) \<Rightarrow> emit (EvLog ''can't list containers'') w1
         | (containers, None) \<Rightarrow> delete_containers e containers w1)"

text \<open>The \<open>container.Delete\<close> calls of a trace, in order.\<close>

fun deletions :: "event list \<Rightarrow> string list" where
  "deletions [] = []"
| "deletions (EvDelete i # es) = i # deletions es"
| "deletions (ev # es) = deletions es"

section \<open>getKubeClient\<close>

text \<open>
  The probing loop \<open>for i := 0; i < 5; i++\<close> of getKubeClient, over the values of \<open>i\<close>
  that are left. \<open>Inl\<close> is \<open>return nil, ctx.Err()\<close>; \<open>Inr ok\<close> is the value of \<open>ok\<close>
  when the loop is left.
\<close>

fun probe_loop :: "env \<Rightarrow> string \<Rightarrow> nat list \<Rightarrow> world \<Rightarrow> (error + bool) \<times> world" where
  "probe_loop e host [] w = (Inr False, w)"
| "probe_loop e host (i # rest) w =
     (if ctx_Done e w then (Inl ErrCanceled, w)
      else case probeHTTP e host w of
             (True, w1) \<Rightarrow> (Inr True, w1)
           | (False, w1) \<Rightarrow> probe_loop e host rest (time_Sleep i w1))"

text \<open>
  One pass of the body of the loop \<open>for _, internal := range []bool{false, true}\<close>:
  \<open>None\<close> is \<open>continue\<close>, \<open>Some r\<close> is \<open>return r\<close>.
\<close>

definition try_variant ::
  "env \<Rightarrow> string \<Rightarrow> bool \<Rightarrow> world \<Rightarrow> (error + kube_client) option \<times> world" where
  "try_variant e cluster internal w =
     (let w1 = call e (EvKubeConfig cluster internal) w
      in case kind_KubeConfig e (step w) cluster internal of
           Inl err \<Rightarrow> (None, emit (EvLog ''Failed to get kubeconfig for cluster'') w1)
         | Inr kconfig \<Rightarrow>
            (case RESTConfigFromKubeConfig e kconfig of
               Inl err \<Rightarrow> (None, emit (EvLog ''Failed to convert kubeconfig for cluster'') w1)
             | Inr config \<Rightarrow>
                (case probe_loop e (Host config) [0..<5] w1 of
                   (Inl err, w2) \<Rightarrow> (Some (Inl err), w2)
                 | (Inr False, w2) \<Rightarrow> (None, emit (EvLog ''Failed to connect to apiserver'') w2)
                 | (Inr True, w2) \<Rightarrow>
                    (case NewForConfig e config of
                       Some err \<Rightarrow> (None, emit (EvLog ''Failed to create kubeClient for cluster'') w2)
                     | None \<Rightarrow> (Some (Inr (KubeClient config)), w2)))))"

text \<open>The loop over the variants that are left; after the last one, the error of line 161.\<close>

fun try_variants :: "env \<Rightarrow> string \<Rightarrow> bool list \<Rightarrow> world \<Rightarrow> (error + kube_client) \<times> world" where
  "try_variants e cluster [] w = (Inl ErrNoClientset, w)"
| "try_variants e cluster (internal # rest) w =
     (case try_variant e cluster internal w of
        (Some r, w1) \<Rightarrow> (r, w1)
      | (None, w1) \<Rightarrow> try_variants e cluster rest w1)"

definition getKubeClient :: "env \<Rightarrow> string \<Rightarrow> world \<Rightarrow> (error + kube_client) \<times> world" where
  "getKubeClient e cluster w = try_variants e cluster [False, True] w"

section \<open>startCloudControllerManager\<close>

text \<open>
  \<open>wait.PollImmediateWithContext\<close> belongs to k8s.io/apimachinery, not to the repository.
  It is modelled after \<open>poll\<close>, \<open>WaitForWithContext\<close> and \<open>poller\<close> of that library
  (pkg/util/wait, v0.26): the condition is run once at once; if it does not hold and the
  context is not done, a ticker and a timer are started; the condition is run again at
  every tick, and when the timer has fired the poller closes its channel, on which the
  condition is run one last time before the timeout error is returned. With a timeout of
  thirty intervals the condition is so run at most 32 times: at once, at thirty ticks, and
  at the closed channel. A wait for a tick ends at the instant at which the context fires.
  Where the library's \<open>select\<close> finds the context done together with a tick or with the
  closed channel, the model takes the context.
  The clock counts whole seconds and the interval of the source is one second, so the tick
  that follows a run of the condition comes one interval after the end of that run.
\<close>

definition wait_tick :: "env \<Rightarrow> nat \<Rightarrow> world \<Rightarrow> bool \<times> world" where
  "wait_tick e interval w =
     (case cancel_at e of
        None \<Rightarrow> (True, w\<lparr>now := now w + interval, trace := trace w @ [EvTick interval]\<rparr>)
      | Some t \<Rightarrow>
          if t \<le> now w + interval then (False, w\<lparr>now := max (now w) t\<rparr>)
          else (True, w\<lparr>now := now w + interval, trace := trace w @ [EvTick interval]\<rparr>))"

text \<open>The poller has closed its channel: the last run of the condition.\<close>

definition poll_closed ::
  "env \<Rightarrow> (world \<Rightarrow> (error + bool) \<times> world) \<Rightarrow> world \<Rightarrow> error option \<times> world" where
  "poll_closed e cond w =
     (if ctx_Done e w then (Some ErrWaitTimeout, w)
      else case cond w of
             (Inl err, w1) \<Rightarrow> (Some err, w1)
           | (Inr True, w1) \<Rightarrow> (None, w1)
           | (Inr False, w1) \<Rightarrow> (Some ErrWaitTimeout, w1))"

text \<open>
  The loop of \<open>WaitForWithContext\<close>; \<open>deadline\<close> is the instant at which the timer fires and
  the last argument the number of ticks before it.
\<close>

fun poll_ticks ::
  "env \<Rightarrow> nat \<Rightarrow> nat \<Rightarrow> (world \<Rightarrow> (error + bool) \<times> world) \<Rightarrow> nat \<Rightarrow> world \<Rightarrow> error option \<times> world" where
  "poll_ticks e interval deadline cond 0 w = poll_closed e cond w"
| "poll_ticks e interval deadline cond (Suc n) w =
     (if deadline \<le> now w then poll_closed e cond w
      else case wait_tick e interval w of
             (False, w1) \<Rightarrow> (Some ErrWaitTimeout, w1)
           | (True, w1) \<Rightarrow>
              (case cond w1 of
                 (Inl err, w2) \<Rightarrow> (Some err, w2)
               | (Inr True, w2) \<Rightarrow> (None, w2)
               | (Inr False, w2) \<Rightarrow> poll_ticks e interval deadline cond n w2))"

definition PollImmediateWithContext ::
  "env \<Rightarrow> nat \<Rightarrow> nat \<Rightarrow> (world \<Rightarrow> (error + bool) \<times> world) \<Rightarrow> world \<Rightarrow> error option \<times> world" where
  "PollImmediateWithContext e interval timeout cond w =
     (case cond w of
        (Inl err, w1) \<Rightarrow> (Some err, w1)
      | (Inr True, w1) \<Rightarrow> (None, w1)
      | (Inr False, w1) \<Rightarrow>
          if ctx_Done e w1 then (Some ErrWaitTimeout, w1)
          else poll_ticks e interval (now w1 + timeout) cond (timeout div interval) w1)"

text \<open>
  A request that carries the context, as \<open>Do(ctx)\<close> does. When the context is done the
  request fails at once and does not reach the server; when the signal fires while the
  request is under way it fails at that instant; otherwise the answer arrives after the
  latency of the call. The result tells whether an answer arrived.
\<close>

definition ctx_request :: "env \<Rightarrow> event \<Rightarrow> world \<Rightarrow> bool \<times> world" where
  "ctx_request e ev w =
     (if ctx_Done e w then (False, emit ev w)
      else case cancel_at e of
             None \<Rightarrow> (True, call e ev w)
           | Some t \<Rightarrow>
               if now w + latency e (step w) < t then (True, call e ev w)
               else (False, (call e ev w)\<lparr>now := t\<rparr>))"

text \<open>
  The condition of the poll: GET /healthz with the context of the poll; \<open>healthStatus\<close>
  stays 0 when the request gives no status; the condition never returns an error.
\<close>

definition healthz_cond :: "env \<Rightarrow> kube_client \<Rightarrow> world \<Rightarrow> (error + bool) \<times> world" where
  "healthz_cond e client w =
     (case ctx_request e (EvHealthz client) w of
        (answered, w1) \<Rightarrow>
          (let healthStatus =
                 (if answered
                  then (case healthz_Get e (step w) client of None \<Rightarrow> 0 | Some sc \<Rightarrow> sc)
                  else 0)
           in (Inr (healthStatus = 200), w1)))"

definition startCloudControllerManager ::
  "env \<Rightarrow> string \<Rightarrow> kube_client \<Rightarrow> cloud \<Rightarrow> world \<Rightarrow> (error + ccm) \<times> world" where
  "startCloudControllerManager e clusterName kubeClient cl w =
     (case PollImmediateWithContext e 1 30 (healthz_cond e kubeClient) w of
        (Some err, w1) \<Rightarrow> (Inl err, emit (EvLog ''Failed waiting for apiserver to be ready'') w1)
      | (None, w1) \<Rightarrow>
         (let sharedInformers = InformerFactory kubeClient;
              w2 = call e (EvServiceNew clusterName) w1
          in case servicecontroller_New e (step w1) clusterName of
               Some err \<Rightarrow> (Inl err, emit (EvLog ''Failed to start service controller'') w2)
             | None \<Rightarrow>
                (let cancel = next_ctx w2;
                     w3 = emit (EvServiceRun clusterName cancel) (w2\<lparr>next_ctx := Suc cancel\<rparr>);
                     w4 = call e (EvNodeNew clusterName) w3
                 in case NewCloudNodeController e (step w3) clusterName of
                      Some err \<Rightarrow>
                        (Inl err, emit (EvCancel cancel) (emit (EvLog ''Failed to start node controller'') w4))
                    | None \<Rightarrow>
                        (Inr \<lparr>factory = sharedInformers,
                              serviceController = ServiceController cl kubeClient clusterName,
                              nodeController = NodeController kubeClient cl,
                              cancelFn = cancel\<rparr>,
                         emit (EvInformersStart clusterName cancel) (emit (EvNodeRun clusterName cancel) w4)))))"

section \<open>Controller.Run\<close>

text \<open>
  One pass of the body of the loop "add new ones", after its \<open>select\<close>: every way out of
  it is a \<open>continue\<close> or the end of the body.
\<close>

definition add_cluster :: "env \<Rightarrow> string \<Rightarrow> Controller \<times> world \<Rightarrow> Controller \<times> world" where
  "add_cluster e cluster s =
     (case s of (c, w) \<Rightarrow>
        (case map_of (clusters c) cluster of
           Some m \<Rightarrow> (c, w)
         | None \<Rightarrow>
            (case getKubeClient e cluster w of
               (Inl err, w1) \<Rightarrow> (c, emit (EvLog ''Failed to create kubeClient for cluster'') w1)
             | (Inr kubeClient, w1) \<Rightarrow>
                (case startCloudControllerManager e cluster kubeClient (Cloud cluster)
                        (emit (EvProviderNew cluster) w1) of
                   (Inl err, w2) \<Rightarrow>
                     (c, emit (EvLog ''Failed to start cloud controller for cluster'') w2)
                 | (Inr m, w2) \<Rightarrow>
                     (c\<lparr>clusters := AList.update cluster m (clusters c)\<rparr>,
                      emit (EvLog ''Starting cloud controller for cluster'') w2)))))"

text \<open>
  The loop "add new ones" over the clusters that are left. The flag is true when the loop
  executed \<open>return\<close> on \<open>ctx.Done()\<close>.
\<close>

fun add_new :: "env \<Rightarrow> string list \<Rightarrow> Controller \<times> world \<Rightarrow> bool \<times> Controller \<times> world" where
  "add_new e [] s = (False, s)"
| "add_new e (cluster # rest) s =
     (if ctx_Done e (snd s) then (True, s) else add_new e rest (add_cluster e cluster s))"

text \<open>
  The loop "remove expired ones" over the entries of the map that are still to be
  visited; \<open>listed\<close> is the slice the set \<open>clusterSet\<close> is built from.
\<close>

fun remove_expired :: "string list \<Rightarrow> (string \<times> ccm) list \<Rightarrow> Controller \<times> world \<Rightarrow> Controller \<times> world" where
  "remove_expired listed [] (c, w) = (c, w)"
| "remove_expired listed ((cluster, m) # rest) (c, w) =
     (if cluster \<in> set listed then remove_expired listed rest (c, w)
      else remove_expired listed rest
             (c\<lparr>clusters := AList.delete cluster (clusters c)\<rparr>,
              emit (EvCancel (cancelFn m)) (emit (EvLog ''Stopping service controller for cluster'') w)))"

text \<open>One pass of the body of the \<open>for\<close> loop of Run. The flag is true when the pass executed \<open>return\<close>.\<close>

definition cycle :: "env \<Rightarrow> Controller \<times> world \<Rightarrow> bool \<times> Controller \<times> world" where
  "cycle e s =
     (case s of (c, w) \<Rightarrow>
        if ctx_Done e w then (True, c, w)
        else
          (let w1 = call e EvList w;
               listed = fst (kind_List e (step w));
               w2 = (case snd (kind_List e (step w)) of
                       Some err \<Rightarrow> emit (EvLog ''error listing clusters, retrying ...'') w1
                     | None \<Rightarrow> w1)
           in case add_new e listed (c, w2) of
                (True, c3, w3) \<Rightarrow> (True, c3, w3)
              | (False, c3, w3) \<Rightarrow>
                 (case remove_expired listed (clusters c3) (c3, w3) of
                    (c4, w4) \<Rightarrow> (False, c4, time_Sleep 30 w4))))"

text \<open>
  Run: the loop has no bound, so the model takes the number of passes it may make;
  \<open>None\<close> says that Run has not returned within that many passes. The deferred cleanup
  runs when Run returns.
\<close>

fun Run :: "env \<Rightarrow> nat \<Rightarrow> Controller \<times> world \<Rightarrow> (Controller \<times> world) option" where
  "Run e 0 s = None"
| "Run e (Suc n) s =
     (case cycle e s of
        (True, c, w) \<Rightarrow> Some (c, cleanup e w)
      | (False, c, w) \<Rightarrow> Run e n (c, w))"

text \<open>The controller that \<open>New\<close> returns, and a world in which nothing has happened yet.\<close>

definition New :: Controller where
  "New = \<lparr>clusters = []\<rparr>"

definition world0 :: world where
  "world0 = \<lparr>now = 0, step = 0, next_ctx = 0, trace = []\<rparr>"

section \<open>Environments for the examples\<close>

text \<open>
  An environment in which nothing fails and nothing takes time: no cluster is listed,
  every kubeconfig is its cluster's name and parses to a host of that name, every GET is
  answered with 200, every construction succeeds, no container is left.
\<close>

definition env0 :: env where
  "env0 = \<lparr>cancel_at = None,
            latency = (\<lambda>n. 0),
            kind_List = (\<lambda>n. ([], None)),
            kind_KubeConfig = (\<lambda>n cluster internal. Inr cluster),
            RESTConfigFromKubeConfig = (\<lambda>k. Inr (RestConfig k)),
            http_Get = (\<lambda>n a. Inr \<lparr>StatusCode = 200, BodyData = ''ok'', BodyErr = None\<rparr>),
            NewForConfig = (\<lambda>cfg. None),
            healthz_Get = (\<lambda>n k. Some 200),
            servicecontroller_New = (\<lambda>n cluster. None),
            NewCloudNodeController = (\<lambda>n cluster. None),
            NodeCCMLabelKey = ''label'',
            container_ListByLabel = (\<lambda>n l. ([], None)),
            container_Delete = (\<lambda>n i. None)\<rparr>"

section \<open>Observations on traces\<close>

text \<open>
  The kinds of events that each part of the controller can add to the trace: the probing
  loop; the bootstrap of the cluster \<open>x\<close>; the readiness poll; the launch of \<open>x\<close>; one
  pass of the loop "add new ones" for \<open>x\<close>; and the loop of Run as a whole, which never
  touches containers.
\<close>

fun ev_probe :: "event \<Rightarrow> bool" where
  "ev_probe (EvLog s) = True"
| "ev_probe (EvHttpGet a) = True"
| "ev_probe (EvReadAll d) = True"
| "ev_probe EvBodyClose = True"
| "ev_probe (EvSleep d) = True"
| "ev_probe ev = False"

fun ev_boot :: "string \<Rightarrow> event \<Rightarrow> bool" where
  "ev_boot x (EvKubeConfig y v) = (x = y)"
| "ev_boot x ev = ev_probe ev"

fun ev_poll :: "event \<Rightarrow> bool" where
  "ev_poll (EvTick d) = True"
| "ev_poll (EvHealthz k) = True"
| "ev_poll ev = False"

fun ev_launch :: "string \<Rightarrow> event \<Rightarrow> bool" where
  "ev_launch x (EvLog s) = True"
| "ev_launch x (EvServiceNew y) = (x = y)"
| "ev_launch x (EvNodeNew y) = (x = y)"
| "ev_launch x (EvServiceRun y t) = (x = y)"
| "ev_launch x (EvNodeRun y t) = (x = y)"
| "ev_launch x (EvInformersStart y t) = (x = y)"
| "ev_launch x (EvCancel t) = True"
| "ev_launch x ev = ev_poll ev"

fun ev_add :: "string \<Rightarrow> event \<Rightarrow> bool" where
  "ev_add x (EvKubeConfig y v) = (x = y)"
| "ev_add x (EvProviderNew y) = (x = y)"
| "ev_add x (EvHttpGet a) = True"
| "ev_add x (EvReadAll d) = True"
| "ev_add x EvBodyClose = True"
| "ev_add x (EvSleep d) = True"
| "ev_add x ev = ev_launch x ev"

fun ev_run :: "event \<Rightarrow> bool" where
  "ev_run (EvListByLabel l) = False"
| "ev_run (EvDelete i) = False"
| "ev_run ev = True"

text \<open>
  \<open>grows P w w'\<close>: the world \<open>w'\<close> comes after \<open>w\<close>; the clock, the call number and the
  counter of contexts have not gone back, and the trace has been extended, by events of
  the kind \<open>P\<close> only. \<open>quiet\<close> is the same with no context made in between.
\<close>

definition quiet :: "(event \<Rightarrow> bool) \<Rightarrow> world \<Rightarrow> world \<Rightarrow> bool" where
  "quiet P w w' \<longleftrightarrow>
     now w \<le> now w' \<and> step w \<le> step w' \<and> next_ctx w' = next_ctx w \<and>
     (\<exists>es. trace w' = trace w @ es \<and> list_all P es)"

definition grows :: "(event \<Rightarrow> bool) \<Rightarrow> world \<Rightarrow> world \<Rightarrow> bool" where
  "grows P w w' \<longleftrightarrow>
     now w \<le> now w' \<and> step w \<le> step w' \<and> next_ctx w \<le> next_ctx w' \<and>
     (\<exists>es. trace w' = trace w @ es \<and> list_all P es)"

text \<open>
  The instances whose launch was completed (cluster name and context), and the contexts
  whose cancel function was called, in the order of the trace.
\<close>

fun launched :: "event list \<Rightarrow> (string \<times> nat) list" where
  "launched [] = []"
| "launched (EvInformersStart x t # es) = (x, t) # launched es"
| "launched (ev # es) = launched es"

fun canceled :: "event list \<Rightarrow> nat list" where
  "canceled [] = []"
| "canceled (EvCancel t # es) = t # canceled es"
| "canceled (ev # es) = canceled es"

text \<open>The number of \<open>container.ListByLabel\<close> calls of a trace: one per run of cleanup.\<close>

fun sweeps :: "event list \<Rightarrow> nat" where
  "sweeps [] = 0"
| "sweeps (EvListByLabel l # es) = Suc (sweeps es)"
| "sweeps (ev # es) = sweeps es"

text \<open>The durations of the \<open>time.Sleep\<close> calls and the addresses of the GETs of a trace.\<close>

fun sleeps :: "event list \<Rightarrow> nat list" where
  "sleeps [] = []"
| "sleeps (EvSleep d # es) = d # sleeps es"
| "sleeps (ev # es) = sleeps es"

fun gets :: "event list \<Rightarrow> string list" where
  "gets [] = []"
| "gets (EvHttpGet a # es) = a # gets es"
| "gets (ev # es) = gets es"

text \<open>No endpoint answers: every GET fails with a transport error.\<close>

definition env_unreachable :: env where
  "env_unreachable = env0\<lparr>http_Get := (\<lambda>n a. Inl (ErrExternal ''connection refused''))\<rparr>"

text \<open>
  The waits between readiness polls and the number of readiness polls of a trace; the
  contexts that background tasks were started with; the events that a step added; the
  contexts of started tasks that no cancel function was called for.
\<close>

fun ticks :: "event list \<Rightarrow> nat list" where
  "ticks [] = []"
| "ticks (EvTick d # es) = d # ticks es"
| "ticks (ev # es) = ticks es"

fun health_checks :: "event list \<Rightarrow> nat" where
  "health_checks [] = 0"
| "health_checks (EvHealthz k # es) = Suc (health_checks es)"
| "health_checks (ev # es) = health_checks es"

fun started_tokens :: "event list \<Rightarrow> nat list" where
  "started_tokens [] = []"
| "started_tokens (EvServiceRun x t # es) = t # started_tokens es"
| "started_tokens (EvNodeRun x t # es) = t # started_tokens es"
| "started_tokens (EvInformersStart x t # es) = t # started_tokens es"
| "started_tokens (ev # es) = started_tokens es"

definition new_events :: "world \<Rightarrow> world \<Rightarrow> event list" where
  "new_events w w' = drop (length (trace w)) (trace w')"

definition orphans :: "event list \<Rightarrow> nat list" where
  "orphans es = filter (\<lambda>t. t \<notin> set (canceled es)) (started_tokens es)"

text \<open>
  The lifecycle of the instances, read off the trace. An instance counts as launched
  when \<open>sharedInformers.Start\<close> has been reached (the last step of a launch that returns
  a handle), and as cancelled when the cancel function of its context has been called;
  \<open>running\<close> are the launched instances not yet cancelled, \<open>handles\<close> the cluster names of
  the map with the contexts of their cancel functions. \<open>attempts x\<close> are the bootstrap
  and launch events of the cluster \<open>x\<close>. \<open>same_life\<close> relates two worlds between which
  no instance was launched or cancelled and no context made.
\<close>

fun about :: "string \<Rightarrow> event \<Rightarrow> bool" where
  "about x (EvKubeConfig y v) = (x = y)"
| "about x (EvProviderNew y) = (x = y)"
| "about x (EvServiceNew y) = (x = y)"
| "about x (EvNodeNew y) = (x = y)"
| "about x (EvServiceRun y t) = (x = y)"
| "about x (EvNodeRun y t) = (x = y)"
| "about x (EvInformersStart y t) = (x = y)"
| "about x ev = False"

definition attempts :: "string \<Rightarrow> event list \<Rightarrow> event list" where
  "attempts x tr = filter (about x) tr"

definition running :: "event list \<Rightarrow> (string \<times> nat) list" where
  "running tr = filter (\<lambda>p. snd p \<notin> set (canceled tr)) (launched tr)"

definition handles :: "Controller \<Rightarrow> (string \<times> nat) list" where
  "handles c = map (\<lambda>p. (fst p, cancelFn (snd p))) (clusters c)"

definition lifecycle_inv :: "Controller \<times> world \<Rightarrow> bool" where
  "lifecycle_inv s \<longleftrightarrow>
     distinct (map fst (clusters (fst s))) \<and>
     set (handles (fst s)) = set (running (trace (snd s))) \<and>
     distinct (map snd (launched (trace (snd s)))) \<and>
     list_all (\<lambda>t. t < next_ctx (snd s))
       (map snd (launched (trace (snd s))) @ canceled (trace (snd s)))"


definition same_life :: "world \<Rightarrow> world \<Rightarrow> bool" where
  "same_life w w' \<longleftrightarrow>
     launched (trace w') = launched (trace w) \<and> canceled (trace w') = canceled (trace w) \<and>
     next_ctx w' = next_ctx w"

text \<open>
  Two clusters' worth of endpoints for the examples: in the first only the internal
  endpoint answers (with 403); in the second both endpoints answer, but no client can be
  built from the external configuration.
\<close>

definition env_internal_only :: env where
  "env_internal_only =
     env0\<lparr>kind_KubeConfig := (\<lambda>n cluster internal. Inr (if internal then ''int'' else ''ext'')),
          http_Get := (\<lambda>n a. if a = ''int''
                               then Inr \<lparr>StatusCode = 403, BodyData = ''Forbidden'', BodyErr = None\<rparr>
                               else Inl (ErrExternal ''i/o timeout''))\<rparr>"

definition env_bad_external :: env where
  "env_bad_external =
     env0\<lparr>kind_KubeConfig := (\<lambda>n cluster internal. Inr (if internal then ''int'' else ''ext'')),
          NewForConfig := (\<lambda>cfg. if cfg = RestConfig ''ext''
                                  then Some (ErrExternal ''invalid configuration'') else None)\<rparr>"

text \<open>
  The provider lists the cluster \<open>a\<close> at the first call and fails at every later call,
  returning a nil slice with its error.
\<close>

definition env_list_fails :: env where
  "env_list_fails =
     env0\<lparr>kind_List := (\<lambda>n. if n = 0 then ([''a''], None)
                             else ([], Some (ErrExternal ''failed to list clusters'')))\<rparr>"



definition env_no_service :: env where
  "env_no_service =
     env0\<lparr>servicecontroller_New := (\<lambda>n cluster. Some (ErrExternal ''no load balancer support''))\<rparr>"

definition env_no_node :: env where
  "env_no_node =
     env0\<lparr>NewCloudNodeController := (\<lambda>n cluster. Some (ErrExternal ''no instances support''))\<rparr>"

text \<open>
  Two passes of the loop: the provider lists \<open>a\<close> and \<open>b\<close>, then \<open>b\<close> and \<open>c\<close>. And a
  shutdown in the middle of a pass: the provider lists \<open>a\<close>, then \<open>b\<close>; the second
  listing (the call number 6) takes one second, during which the signal fires.
\<close>

definition env_abc :: env where
  "env_abc = env0\<lparr>kind_List := (\<lambda>n. if n = 0 then ([''a'', ''b''], None)
                                      else ([''b'', ''c''], None))\<rparr>"

definition pass1 :: "bool \<times> Controller \<times> world" where
  "pass1 = cycle env_abc (New, world0)"

definition pass2 :: "bool \<times> Controller \<times> world" where
  "pass2 = cycle env_abc (snd pass1)"

definition env_shutdown_in_pass :: env where
  "env_shutdown_in_pass =
     env0\<lparr>cancel_at := Some 31, latency := (\<lambda>n. if n = 6 then 1 else 0),
          kind_List := (\<lambda>n. if n = 0 then ([''a''], None) else ([''b''], None))\<rparr>"


section \<open>Lemmas\<close>

subsection \<open>The cleanup pass\<close>

lemma deletions_append: "deletions (xs @ ys) = deletions xs @ deletions ys"
  by (induction xs rule: deletions.induct) simp_all

lemma trace_emit: "trace (emit ev w) = trace w @ [ev]"
  by (simp add: emit_def)

lemma trace_call: "trace (call e ev w) = trace w @ [ev]"
  by (simp add: call_def)

lemma deletions_delete_containers:
  "deletions (trace (delete_containers e ids w)) = deletions (trace w) @ ids"
  by (induction ids arbitrary: w)
     (simp_all add: deletions_append trace_emit trace_call split: option.splits)


subsection \<open>What each part adds to the trace\<close>

lemma quiet_refl: "quiet P w w"
  by (simp add: quiet_def)

lemma quiet_trans: "quiet P w w1 \<Longrightarrow> quiet P w1 w2 \<Longrightarrow> quiet P w w2"
proof -
  assume a: "quiet P w w1" and b: "quiet P w1 w2"
  from a obtain es where es: "trace w1 = trace w @ es" "list_all P es"
    by (auto simp: quiet_def)
  from b obtain fs where fs: "trace w2 = trace w1 @ fs" "list_all P fs"
    by (auto simp: quiet_def)
  have "trace w2 = trace w @ (es @ fs) \<and> list_all P (es @ fs)"
    using es fs by simp
  then have "\<exists>gs. trace w2 = trace w @ gs \<and> list_all P gs" by blast
  then show ?thesis using a b by (simp add: quiet_def)
qed

lemma quiet_weaken: "quiet P w w' \<Longrightarrow> (\<And>ev. P ev \<Longrightarrow> Q ev) \<Longrightarrow> quiet Q w w'"
  unfolding quiet_def by (auto simp: list_all_iff)

lemma quiet_emit: "P ev \<Longrightarrow> quiet P w (emit ev w)"
  by (simp add: quiet_def emit_def)

lemma quiet_call: "P ev \<Longrightarrow> quiet P w (call e ev w)"
  by (simp add: quiet_def call_def)

lemma quiet_sleep: "P (EvSleep d) \<Longrightarrow> quiet P w (time_Sleep d w)"
  by (simp add: quiet_def time_Sleep_def)

lemma probeHTTP_quiet: "probeHTTP e a w = (r, w') \<Longrightarrow> quiet ev_probe w w'"
  by (auto simp: probeHTTP_def Let_def quiet_def emit_def call_def split: sum.splits)

lemma probe_loop_quiet: "probe_loop e h is w = (r, w') \<Longrightarrow> quiet ev_probe w w'"
proof (induction "is" arbitrary: w)
  case Nil
  then show ?case by (simp add: quiet_refl)
next
  case (Cons i rest)
  show ?case
  proof (cases "ctx_Done e w")
    case True
    with Cons.prems show ?thesis by (simp add: quiet_refl)
  next
    case False
    obtain ok w1 where p: "probeHTTP e h w = (ok, w1)" by (cases "probeHTTP e h w")
    have g1: "quiet ev_probe w w1" using p by (rule probeHTTP_quiet)
    show ?thesis
    proof (cases ok)
      case True
      with Cons.prems False p g1 show ?thesis by simp
    next
      case f: False
      with Cons.prems False p have "probe_loop e h rest (time_Sleep i w1) = (r, w')" by simp
      then have "quiet ev_probe (time_Sleep i w1) w'" by (rule Cons.IH)
      moreover have "quiet ev_probe w1 (time_Sleep i w1)" by (simp add: quiet_sleep)
      ultimately show ?thesis using g1 by (blast intro: quiet_trans)
    qed
  qed
qed

lemma try_variant_quiet: "try_variant e x v w = (r, w') \<Longrightarrow> quiet (ev_boot x) w w'"
proof -
  assume a: "try_variant e x v w = (r, w')"
  let ?w1 = "call e (EvKubeConfig x v) w"
  have g0: "quiet (ev_boot x) w ?w1" by (simp add: quiet_call)
  have lg: "\<And>s u. quiet (ev_boot x) u (emit (EvLog s) u)" by (simp add: quiet_emit)
  have pl: "\<And>h q u. probe_loop e h [0..<5] ?w1 = (q, u) \<Longrightarrow> quiet (ev_boot x) ?w1 u"
    by (rule quiet_weaken [OF probe_loop_quiet]) (auto elim: ev_probe.elims)
  show ?thesis
    using a g0 lg pl unfolding try_variant_def Let_def
    by (auto split: sum.splits prod.splits bool.splits option.splits)
       (meson quiet_trans)+
qed

lemma try_variants_quiet: "try_variants e x vs w = (r, w') \<Longrightarrow> quiet (ev_boot x) w w'"
proof (induction vs arbitrary: w)
  case Nil
  then show ?case by (simp add: quiet_refl)
next
  case (Cons v rest)
  obtain q w1 where t: "try_variant e x v w = (q, w1)" by (cases "try_variant e x v w")
  have g: "quiet (ev_boot x) w w1" using t by (rule try_variant_quiet)
  show ?case
  proof (cases q)
    case None
    with Cons.prems t have "try_variants e x rest w1 = (r, w')" by simp
    then have "quiet (ev_boot x) w1 w'" by (rule Cons.IH)
    with g show ?thesis by (rule quiet_trans)
  next
    case (Some a)
    with Cons.prems t g show ?thesis by simp
  qed
qed

lemma getKubeClient_quiet: "getKubeClient e x w = (r, w') \<Longrightarrow> quiet (ev_boot x) w w'"
  unfolding getKubeClient_def by (rule try_variants_quiet)

lemma wait_tick_quiet: "wait_tick e i w = (r, w') \<Longrightarrow> quiet ev_poll w w'"
  by (auto simp: wait_tick_def quiet_def split: option.splits if_splits)

lemma ctx_request_quiet: "P ev \<Longrightarrow> ctx_request e ev w = (r, w') \<Longrightarrow> quiet P w w'"
  by (auto simp: ctx_request_def ctx_Done_def quiet_def emit_def call_def
           split: option.splits if_splits)

lemma healthz_cond_quiet: "healthz_cond e k w = (r, w') \<Longrightarrow> quiet ev_poll w w'"
  by (auto simp: healthz_cond_def Let_def split: prod.splits
           intro: ctx_request_quiet [where ev = "EvHealthz k"])

lemma poll_closed_quiet:
  assumes c: "\<And>u q u'. cond u = (q, u') \<Longrightarrow> quiet ev_poll u u'"
  shows "poll_closed e cond w = (r, w') \<Longrightarrow> quiet ev_poll w w'"
proof -
  assume a: "poll_closed e cond w = (r, w')"
  obtain q w1 where cq: "cond w = (q, w1)" by (cases "cond w")
  have g1: "quiet ev_poll w w1" using cq by (rule c)
  show ?thesis
    using a cq g1 unfolding poll_closed_def
    by (auto simp: quiet_refl split: sum.splits bool.splits if_splits)
qed

lemma poll_ticks_quiet:
  assumes c: "\<And>u q u'. cond u = (q, u') \<Longrightarrow> quiet ev_poll u u'"
  shows "poll_ticks e i d cond n w = (r, w') \<Longrightarrow> quiet ev_poll w w'"
proof (induction n arbitrary: w)
  case 0
  then have "poll_closed e cond w = (r, w')" by simp
  then show ?case by (rule poll_closed_quiet [where cond = cond, rotated]) (rule c)
next
  case (Suc n)
  show ?case
  proof (cases "d \<le> now w")
    case True
    with Suc.prems have "poll_closed e cond w = (r, w')" by simp
    then show ?thesis by (rule poll_closed_quiet [where cond = cond, rotated]) (rule c)
  next
    case False
    obtain b w1 where t: "wait_tick e i w = (b, w1)" by (cases "wait_tick e i w")
    have g1: "quiet ev_poll w w1" using t by (rule wait_tick_quiet)
    show ?thesis
    proof (cases b)
      case f: False
      with Suc.prems False t g1 show ?thesis by simp
    next
      case True
      obtain q w2 where cq: "cond w1 = (q, w2)" by (cases "cond w1")
      have g2: "quiet ev_poll w w2" using g1 c [OF cq] by (rule quiet_trans)
      show ?thesis
      proof (cases q)
        case (Inl err)
        with Suc.prems False t True cq g2 show ?thesis by simp
      next
        case (Inr ok)
        show ?thesis
        proof (cases ok)
          case True
          with Suc.prems False t \<open>b\<close> cq Inr g2 show ?thesis by simp
        next
          case f: False
          with Suc.prems False t \<open>b\<close> cq Inr
          have "poll_ticks e i d cond n w2 = (r, w')" by simp
          then have "quiet ev_poll w2 w'" by (rule Suc.IH)
          with g2 show ?thesis by (rule quiet_trans)
        qed
      qed
    qed
  qed
qed

lemma PollImmediateWithContext_quiet:
  assumes c: "\<And>u q u'. cond u = (q, u') \<Longrightarrow> quiet ev_poll u u'"
  shows "PollImmediateWithContext e i t cond w = (r, w') \<Longrightarrow> quiet ev_poll w w'"
proof -
  assume a: "PollImmediateWithContext e i t cond w = (r, w')"
  obtain q w1 where cq: "cond w = (q, w1)" by (cases "cond w")
  have g1: "quiet ev_poll w w1" using cq by (rule c)
  have pt: "\<And>n. poll_ticks e i (now w1 + t) cond n w1 = (r, w') \<Longrightarrow> quiet ev_poll w w'"
  proof -
    fix n
    assume "poll_ticks e i (now w1 + t) cond n w1 = (r, w')"
    then have "quiet ev_poll w1 w'"
      by (rule poll_ticks_quiet [where cond = cond, rotated]) (rule c)
    with g1 show "quiet ev_poll w w'" by (rule quiet_trans)
  qed
  show ?thesis
    using a cq g1 pt unfolding PollImmediateWithContext_def
    by (auto split: sum.splits bool.splits if_splits)
qed

lemma healthz_poll_quiet:
  assumes "PollImmediateWithContext e i t (healthz_cond e k) w = (r, w')"
  shows "quiet ev_poll w w'"
proof (rule PollImmediateWithContext_quiet [where cond = "healthz_cond e k"])
  show "\<And>u q u'. healthz_cond e k u = (q, u') \<Longrightarrow> quiet ev_poll u u'"
    by (rule healthz_cond_quiet)
  show "PollImmediateWithContext e i t (healthz_cond e k) w = (r, w')"
    by (rule assms)
qed

lemma quiet_grows: "quiet P w w' \<Longrightarrow> grows P w w'"
  by (simp add: quiet_def grows_def)

lemma grows_refl: "grows P w w"
  by (simp add: grows_def)

lemma grows_trans: "grows P w w1 \<Longrightarrow> grows P w1 w2 \<Longrightarrow> grows P w w2"
proof -
  assume a: "grows P w w1" and b: "grows P w1 w2"
  from a obtain es where es: "trace w1 = trace w @ es" "list_all P es"
    by (auto simp: grows_def)
  from b obtain fs where fs: "trace w2 = trace w1 @ fs" "list_all P fs"
    by (auto simp: grows_def)
  have "trace w2 = trace w @ (es @ fs) \<and> list_all P (es @ fs)"
    using es fs by simp
  then have "\<exists>gs. trace w2 = trace w @ gs \<and> list_all P gs" by blast
  then show ?thesis using a b by (simp add: grows_def)
qed

lemma grows_weaken: "grows P w w' \<Longrightarrow> (\<And>ev. P ev \<Longrightarrow> Q ev) \<Longrightarrow> grows Q w w'"
  unfolding grows_def by (auto simp: list_all_iff)

lemma grows_emit: "P ev \<Longrightarrow> grows P w (emit ev w)"
  by (simp add: grows_def emit_def)

lemma grows_sleep: "P (EvSleep d) \<Longrightarrow> grows P w (time_Sleep d w)"
  by (simp add: grows_def time_Sleep_def)

lemma startCCM_cases:
  assumes "startCloudControllerManager e x k cl w = (r, w')"
  obtains
    (poll_failed) err w1 where
      "PollImmediateWithContext e 1 30 (healthz_cond e k) w = (Some err, w1)"
      "r = Inl err"
      "w' = emit (EvLog ''Failed waiting for apiserver to be ready'') w1"
  | (service_failed) err w1 where
      "PollImmediateWithContext e 1 30 (healthz_cond e k) w = (None, w1)"
      "servicecontroller_New e (step w1) x = Some err"
      "r = Inl err"
      "trace w' = trace w1 @ [EvServiceNew x, EvLog ''Failed to start service controller'']"
      "next_ctx w' = next_ctx w1" "now w1 \<le> now w'" "step w' = Suc (step w1)"
  | (node_failed) err w1 where
      "PollImmediateWithContext e 1 30 (healthz_cond e k) w = (None, w1)"
      "servicecontroller_New e (step w1) x = None"
      "NewCloudNodeController e (Suc (step w1)) x = Some err"
      "r = Inl err"
      "trace w' = trace w1 @ [EvServiceNew x, EvServiceRun x (next_ctx w1), EvNodeNew x,
                              EvLog ''Failed to start node controller'', EvCancel (next_ctx w1)]"
      "next_ctx w' = Suc (next_ctx w1)" "now w1 \<le> now w'" "step w' = Suc (Suc (step w1))"
  | (started) m w1 where
      "PollImmediateWithContext e 1 30 (healthz_cond e k) w = (None, w1)"
      "servicecontroller_New e (step w1) x = None"
      "NewCloudNodeController e (Suc (step w1)) x = None"
      "r = Inr m" "cancelFn m = next_ctx w1"
      "trace w' = trace w1 @ [EvServiceNew x, EvServiceRun x (next_ctx w1), EvNodeNew x,
                              EvNodeRun x (next_ctx w1), EvInformersStart x (next_ctx w1)]"
      "next_ctx w' = Suc (next_ctx w1)" "now w1 \<le> now w'" "step w' = Suc (Suc (step w1))"
proof -
  obtain q w1 where p: "PollImmediateWithContext e 1 30 (healthz_cond e k) w = (q, w1)"
    by (cases "PollImmediateWithContext e 1 30 (healthz_cond e k) w")
  show thesis
  proof (cases q)
    case (Some err)
    with assms p show thesis
      by (intro poll_failed [of err w1]) (auto simp: startCloudControllerManager_def)
  next
    case None
    note qn = None
    show thesis
    proof (cases "servicecontroller_New e (step w1) x")
      case (Some err)
      with assms p qn show thesis
        by (intro service_failed [of w1 err])
           (auto simp: startCloudControllerManager_def Let_def emit_def call_def)
    next
      case None
      note sn = None
      show thesis
      proof (cases "NewCloudNodeController e (Suc (step w1)) x")
        case (Some err)
        with assms p qn sn show thesis
          by (intro node_failed [of w1 err])
             (auto simp: startCloudControllerManager_def Let_def emit_def call_def)
      next
        case None
        with assms p qn sn show thesis
          by (intro started [of w1 "\<lparr>factory = InformerFactory k,
                 serviceController = ServiceController cl k x,
                 nodeController = NodeController k cl, cancelFn = next_ctx w1\<rparr>"])
             (auto simp: startCloudControllerManager_def Let_def emit_def call_def)
      qed
    qed
  qed
qed

subsection \<open>The probing loop\<close>

lemma upt_0_5: "[0..<5] = [0, 1, 2, 3, 4]"
  by (simp add: upt_rec)

lemma sleeps_append: "sleeps (xs @ ys) = sleeps xs @ sleeps ys"
  by (induction xs rule: sleeps.induct) simp_all

lemma gets_append: "gets (xs @ ys) = gets xs @ gets ys"
  by (induction xs rule: gets.induct) simp_all

lemma probeHTTP_effect:
  "probeHTTP e a w = (ok, w') \<Longrightarrow>
     sleeps (trace w') = sleeps (trace w) \<and> gets (trace w') = gets (trace w) @ [a] \<and>
     now w \<le> now w'"
  by (auto simp: probeHTTP_def Let_def emit_def call_def sleeps_append gets_append
           split: sum.splits)

lemma probe_loop_effect:
  "probe_loop e host ds w = (r, w') \<Longrightarrow>
     \<exists>k\<le>length ds.
        sleeps (trace w') = sleeps (trace w) @ take k ds \<and>
        gets (trace w') = gets (trace w) @ replicate (if r = Inr True then Suc k else k) host \<and>
        now w + sum_list (take k ds) \<le> now w' \<and>
        (r = Inr True \<longrightarrow> k < length ds) \<and>
        (r = Inr False \<longrightarrow> k = length ds) \<and>
        (\<forall>err. r = Inl err \<longrightarrow> err = ErrCanceled \<and> ctx_Done e w' \<and> k < length ds)"
proof (induction ds arbitrary: w)
  case Nil
  then show ?case by auto
next
  case (Cons d rest)
  show ?case
  proof (cases "ctx_Done e w")
    case True
    with Cons.prems have "r = Inl ErrCanceled" "w' = w" by auto
    with True show ?thesis by (intro exI [of _ 0]) simp
  next
    case False
    obtain ok w1 where p: "probeHTTP e host w = (ok, w1)" by (cases "probeHTTP e host w")
    note pe = probeHTTP_effect [OF p]
    show ?thesis
    proof (cases ok)
      case True
      with Cons.prems False p have "r = Inr True" "w' = w1" by auto
      with pe show ?thesis by (intro exI [of _ 0]) simp
    next
      case f: False
      with Cons.prems False p have "probe_loop e host rest (time_Sleep d w1) = (r, w')" by simp
      from Cons.IH [OF this] obtain k where k:
        "k \<le> length rest"
        "sleeps (trace w') = sleeps (trace (time_Sleep d w1)) @ take k rest"
        "gets (trace w') = gets (trace (time_Sleep d w1)) @ replicate (if r = Inr True then Suc k else k) host"
        "now (time_Sleep d w1) + sum_list (take k rest) \<le> now w'"
        "r = Inr True \<longrightarrow> k < length rest"
        "r = Inr False \<longrightarrow> k = length rest"
        "\<forall>err. r = Inl err \<longrightarrow> err = ErrCanceled \<and> ctx_Done e w' \<and> k < length rest"
        by blast
      have s: "sleeps (trace (time_Sleep d w1)) = sleeps (trace w) @ [d]"
              "gets (trace (time_Sleep d w1)) = gets (trace w) @ [host]"
              "now (time_Sleep d w1) = now w1 + d"
        using pe by (simp_all add: time_Sleep_def sleeps_append gets_append)
      show ?thesis
        using k s pe by (intro exI [of _ "Suc k"]) (auto simp: replicate_append_same)
    qed
  qed
qed



subsection \<open>Launch and the passes of the loop\<close>

lemma grows_call: "P ev \<Longrightarrow> grows P w (call e ev w)"
  by (simp add: grows_def call_def)

lemma grows_extend:
  assumes "grows P w w1" "trace w' = trace w1 @ es" "list_all P es"
    "now w1 \<le> now w'" "step w1 \<le> step w'" "next_ctx w1 \<le> next_ctx w'"
  shows "grows P w w'"
proof -
  have "grows P w1 w'" using assms(2-) by (auto simp: grows_def)
  with assms(1) show ?thesis by (rule grows_trans)
qed

lemma ev_poll_launch: "ev_poll ev \<Longrightarrow> ev_launch x ev"
  by (cases ev) simp_all

lemma ev_boot_add: "ev_boot x ev \<Longrightarrow> ev_add x ev"
  by (cases ev) simp_all

lemma ev_launch_add: "ev_launch x ev \<Longrightarrow> ev_add x ev"
  by (cases ev) simp_all

lemma ev_add_run: "ev_add x ev \<Longrightarrow> ev_run ev"
  by (cases ev) simp_all

lemma startCCM_grows:
  assumes "startCloudControllerManager e x k cl w = (r, w')"
  shows "grows (ev_launch x) w w'"
  using assms
proof (cases rule: startCCM_cases)
  case (poll_failed err w1)
  have "grows (ev_launch x) w w1"
    using healthz_poll_quiet [OF poll_failed(1)] by (blast intro: quiet_grows grows_weaken ev_poll_launch)
  moreover have "grows (ev_launch x) w1 w'"
    unfolding poll_failed(3) by (simp add: grows_emit)
  ultimately show ?thesis by (rule grows_trans)
next
  case (service_failed err w1)
  have g: "grows (ev_launch x) w w1"
    using healthz_poll_quiet [OF service_failed(1)] by (blast intro: quiet_grows grows_weaken ev_poll_launch)
  show ?thesis
    by (rule grows_extend [OF g service_failed(4)]) (simp_all add: service_failed)
next
  case (node_failed err w1)
  have g: "grows (ev_launch x) w w1"
    using healthz_poll_quiet [OF node_failed(1)] by (blast intro: quiet_grows grows_weaken ev_poll_launch)
  show ?thesis
    by (rule grows_extend [OF g node_failed(5)]) (simp_all add: node_failed)
next
  case (started m w1)
  have g: "grows (ev_launch x) w w1"
    using healthz_poll_quiet [OF started(1)] by (blast intro: quiet_grows grows_weaken ev_poll_launch)
  show ?thesis
    by (rule grows_extend [OF g started(6)]) (simp_all add: started)
qed

lemma add_cluster_grows:
  assumes "add_cluster e x (c, w) = (c', w')"
  shows "grows (ev_add x) w w'"
proof (cases "map_of (clusters c) x")
  case (Some m)
  with assms show ?thesis by (simp add: add_cluster_def grows_refl)
next
  case None
  obtain r w1 where g: "getKubeClient e x w = (r, w1)" by (cases "getKubeClient e x w")
  have g1: "grows (ev_add x) w w1"
    using getKubeClient_quiet [OF g] by (blast intro: quiet_grows grows_weaken ev_boot_add)
  show ?thesis
  proof (cases r)
    case (Inl err)
    with assms None g have "w' = emit (EvLog ''Failed to create kubeClient for cluster'') w1"
      by (simp add: add_cluster_def)
    then have "grows (ev_add x) w1 w'" by (simp add: grows_emit)
    with g1 show ?thesis by (rule grows_trans)
  next
    case (Inr kc)
    let ?w2 = "emit (EvProviderNew x) w1"
    obtain q w3 where s: "startCloudControllerManager e x kc (Cloud x) ?w2 = (q, w3)"
      by (cases "startCloudControllerManager e x kc (Cloud x) ?w2")
    have g2: "grows (ev_add x) w1 ?w2" by (simp add: grows_emit)
    have g3: "grows (ev_add x) ?w2 w3"
      using startCCM_grows [OF s] by (blast intro: grows_weaken ev_launch_add)
    have "\<exists>l. w' = emit (EvLog l) w3"
      using assms None g Inr s by (cases q) (auto simp: add_cluster_def)
    then have g4: "grows (ev_add x) w3 w'" by (auto simp: grows_emit)
    from g1 g2 g3 g4 show ?thesis by (blast intro: grows_trans)
  qed
qed

lemma add_new_grows: "add_new e xs (c, w) = (b, c', w') \<Longrightarrow> grows ev_run w w'"
proof (induction xs arbitrary: c w)
  case Nil
  then show ?case by (simp add: grows_refl)
next
  case (Cons x xs)
  show ?case
  proof (cases "ctx_Done e w")
    case True
    with Cons.prems show ?thesis by (simp add: grows_refl)
  next
    case False
    obtain c1 w1 where a: "add_cluster e x (c, w) = (c1, w1)" by (cases "add_cluster e x (c, w)")
    have "grows ev_run w w1"
      using add_cluster_grows [OF a] by (blast intro: grows_weaken ev_add_run)
    moreover have "grows ev_run w1 w'"
      using Cons.prems False a by (auto intro: Cons.IH)
    ultimately show ?thesis by (rule grows_trans)
  qed
qed

lemma remove_expired_grows:
  "remove_expired listed ms (c, w) = (c', w') \<Longrightarrow> grows ev_run w w'"
proof (induction ms arbitrary: c w)
  case Nil
  then show ?case by (simp add: grows_refl)
next
  case (Cons p ms)
  obtain x m where p: "p = (x, m)" by (cases p)
  show ?case
  proof (cases "x \<in> set listed")
    case True
    with Cons.prems p show ?thesis by (auto intro: Cons.IH)
  next
    case False
    let ?w1 = "emit (EvCancel (cancelFn m)) (emit (EvLog ''Stopping service controller for cluster'') w)"
    have "grows ev_run w ?w1" by (simp add: grows_def emit_def)
    moreover have "grows ev_run ?w1 w'"
      using Cons.prems p False by (auto intro: Cons.IH)
    ultimately show ?thesis by (rule grows_trans)
  qed
qed

lemma cycle_cases:
  assumes "cycle e (c, w) = (b, c', w')"
  obtains
    (at_entry) "ctx_Done e w" "b" "c' = c" "w' = w"
  | (in_loop) w2 where "\<not> ctx_Done e w" "b" "grows ev_run w w2"
      "add_new e (fst (kind_List e (step w))) (c, w2) = (True, c', w')"
  | (completed) w2 c3 w3 w4 where "\<not> ctx_Done e w" "\<not> b" "grows ev_run w w2"
      "add_new e (fst (kind_List e (step w))) (c, w2) = (False, c3, w3)"
      "remove_expired (fst (kind_List e (step w))) (clusters c3) (c3, w3) = (c', w4)"
      "w' = time_Sleep 30 w4"
proof (cases "ctx_Done e w")
  case True
  with assms show thesis by (intro at_entry) (simp_all add: cycle_def)
next
  case False
  define w2 where "w2 = (case snd (kind_List e (step w)) of
                       Some err \<Rightarrow> emit (EvLog ''error listing clusters, retrying ...'') (call e EvList w)
                     | None \<Rightarrow> call e EvList w)"
  have g: "grows ev_run w w2"
    unfolding w2_def by (auto simp: grows_def emit_def call_def split: option.splits)
  obtain b3 c3 w3 where a: "add_new e (fst (kind_List e (step w))) (c, w2) = (b3, c3, w3)"
    by (cases "add_new e (fst (kind_List e (step w))) (c, w2)")
  show thesis
  proof (cases b3)
    case True
    with assms False a show thesis
      by (intro in_loop [of w2]) (auto simp: cycle_def Let_def w2_def g [unfolded w2_def])
  next
    case f: False
    obtain c4 w4 where r: "remove_expired (fst (kind_List e (step w))) (clusters c3) (c3, w3) = (c4, w4)"
      by (cases "remove_expired (fst (kind_List e (step w))) (clusters c3) (c3, w3)")
    with assms False a f show thesis
      by (intro completed [of w2 c3 w3 w4]) (auto simp: cycle_def Let_def w2_def g [unfolded w2_def])
  qed
qed

lemma cycle_grows:
  assumes "cycle e (c, w) = (b, c', w')"
  shows "grows ev_run w w'"
  using assms
proof (cases rule: cycle_cases)
  case at_entry
  then show ?thesis by (simp add: grows_refl)
next
  case (in_loop w2)
  from in_loop(3) add_new_grows [OF in_loop(4)] show ?thesis by (rule grows_trans)
next
  case (completed w2 c3 w3 w4)
  have "grows ev_run w4 w'" unfolding completed(6) by (simp add: grows_sleep)
  with completed(3) add_new_grows [OF completed(4)] remove_expired_grows [OF completed(5)]
  show ?thesis by (blast intro: grows_trans)
qed

lemma cycle_completed_sleeps:
  assumes "cycle e (c, w) = (False, c', w')"
  shows "now w + 30 \<le> now w'"
  using assms
proof (cases rule: cycle_cases)
  case (completed w2 c3 w3 w4)
  have "grows ev_run w w4"
    using completed(3) add_new_grows [OF completed(4)] remove_expired_grows [OF completed(5)]
    by (blast intro: grows_trans)
  then have "now w \<le> now w4" by (simp add: grows_def)
  then show ?thesis unfolding completed(6) by (simp add: time_Sleep_def)
qed simp_all

lemma cycle_completed_sleep:
  assumes "cycle e (c, w) = (False, c', w')"
  shows "\<exists>u. w' = time_Sleep 30 u \<and> now w \<le> now u"
  using assms
proof (cases rule: cycle_cases)
  case (completed w2 c3 w3 w4)
  have "grows ev_run w w4"
    using completed(3) add_new_grows [OF completed(4)] remove_expired_grows [OF completed(5)]
    by (blast intro: grows_trans)
  then have "now w \<le> now w4" by (simp add: grows_def)
  with completed(6) show ?thesis by blast
qed simp_all

lemma probe_loop_sleeps:
  assumes "probe_loop e host ds w = (r, w')"
  shows "now w + sum_list (sleeps (new_events w w')) \<le> now w' \<and>
         (r = Inr False \<longrightarrow> sleeps (new_events w w') = ds)"
proof -
  from probe_loop_quiet [OF assms] obtain es where es: "trace w' = trace w @ es"
    by (auto simp: quiet_def)
  from probe_loop_effect [OF assms] obtain k where k:
    "k \<le> length ds" "sleeps (trace w') = sleeps (trace w) @ take k ds"
    "now w + sum_list (take k ds) \<le> now w'" "r = Inr False \<longrightarrow> k = length ds"
    by blast
  have n: "new_events w w' = es" using es by (simp add: new_events_def)
  have "sleeps es = take k ds" using es k(2) by (simp add: sleeps_append)
  with n k show ?thesis by auto
qed

subsection \<open>Run\<close>

lemma sweeps_append: "sweeps (xs @ ys) = sweeps xs + sweeps ys"
  by (induction xs rule: sweeps.induct) simp_all

lemma sweeps_ev_run: "list_all ev_run es \<Longrightarrow> sweeps es = 0"
  by (induction es rule: sweeps.induct) simp_all

lemma grows_run_sweeps: "grows ev_run w w' \<Longrightarrow> sweeps (trace w') = sweeps (trace w)"
  by (auto simp: grows_def sweeps_append sweeps_ev_run)

lemma sweeps_delete_containers:
  "sweeps (trace (delete_containers e ids w)) = sweeps (trace w)"
  by (induction ids arbitrary: w)
     (simp_all add: sweeps_append trace_emit trace_call split: option.splits)

lemma sweeps_cleanup: "sweeps (trace (cleanup e w)) = Suc (sweeps (trace w))"
  by (cases "container_ListByLabel e (step w) (NodeCCMLabelKey e)")
     (auto simp: cleanup_def Let_def sweeps_append trace_emit trace_call sweeps_delete_containers
           split: option.splits)

lemma add_new_returned: "add_new e xs (c, w) = (True, c', w') \<Longrightarrow> ctx_Done e w'"
proof (induction xs arbitrary: c w)
  case Nil
  then show ?case by simp
next
  case (Cons x xs)
  show ?case
  proof (cases "ctx_Done e w")
    case True
    with Cons.prems show ?thesis by simp
  next
    case False
    obtain c1 w1 where a: "add_cluster e x (c, w) = (c1, w1)" by (cases "add_cluster e x (c, w)")
    with Cons.prems False show ?thesis by (auto intro: Cons.IH)
  qed
qed

lemma cycle_returned:
  assumes "cycle e (c, w) = (True, c', w')"
  shows "ctx_Done e w'"
  using assms
proof (cases rule: cycle_cases)
  case at_entry
  then show ?thesis by simp
next
  case (in_loop w2)
  then show ?thesis by (blast intro: add_new_returned)
qed simp_all

lemma Run_returns:
  "Run e n (c, w) = Some (c', w') \<Longrightarrow>
     \<exists>w1. ctx_Done e w1 \<and> w' = cleanup e w1 \<and> sweeps (trace w1) = sweeps (trace w)"
proof (induction n arbitrary: c w)
  case 0
  then show ?case by simp
next
  case (Suc n)
  obtain b c1 w1 where cy: "cycle e (c, w) = (b, c1, w1)" by (cases "cycle e (c, w)")
  have sw: "sweeps (trace w1) = sweeps (trace w)"
    using cycle_grows [OF cy] by (rule grows_run_sweeps)
  show ?case
  proof (cases b)
    case True
    with cy have "cycle e (c, w) = (True, c1, w1)" by simp
    then have "ctx_Done e w1" by (rule cycle_returned)
    moreover from Suc.prems cy True have "w' = cleanup e w1" by simp
    ultimately show ?thesis using sw by blast
  next
    case False
    with Suc.prems cy have "Run e n (c1, w1) = Some (c', w')" by simp
    from Suc.IH [OF this] sw show ?thesis by auto
  qed
qed

lemma Run_never_without_signal: "cancel_at e = None \<Longrightarrow> Run e n (c, w) = None"
proof (induction n arbitrary: c w)
  case 0
  then show ?case by simp
next
  case (Suc n)
  obtain b c1 w1 where cy: "cycle e (c, w) = (b, c1, w1)" by (cases "cycle e (c, w)")
  have nd: "\<And>u. \<not> ctx_Done e u" using Suc.prems by (simp add: ctx_Done_def)
  have "\<not> b" using cy cycle_returned [of e c w c1 w1] nd by (cases b) auto
  with cy Suc show ?case by simp
qed

lemma Run_returns_after_signal:
  "cancel_at e = Some t \<Longrightarrow> t \<le> now w + 30 * n \<Longrightarrow> Run e (Suc n) (c, w) \<noteq> None"
proof (induction n arbitrary: c w)
  case 0
  then have "ctx_Done e w" by (simp add: ctx_Done_def)
  then show ?case by (simp add: cycle_def)
next
  case (Suc n)
  obtain b c1 w1 where cy: "cycle e (c, w) = (b, c1, w1)" by (cases "cycle e (c, w)")
  show ?case
  proof (cases b)
    case True
    with cy show ?thesis by simp
  next
    case False
    with cy have "cycle e (c, w) = (False, c1, w1)" by simp
    then have "now w + 30 \<le> now w1" by (rule cycle_completed_sleeps)
    with Suc.prems have "t \<le> now w1 + 30 * n" by simp
    from Suc.IH [OF Suc.prems(1) this] have "Run e (Suc n) (c1, w1) \<noteq> None" .
    with cy False show ?thesis by simp
  qed
qed

subsection \<open>The readiness poll and the launch\<close>

lemma ticks_append: "ticks (xs @ ys) = ticks xs @ ticks ys"
  by (induction xs rule: ticks.induct) simp_all

lemma health_checks_append: "health_checks (xs @ ys) = health_checks xs + health_checks ys"
  by (induction xs rule: health_checks.induct) simp_all

lemma started_tokens_append: "started_tokens (xs @ ys) = started_tokens xs @ started_tokens ys"
  by (induction xs rule: started_tokens.induct) simp_all

lemma canceled_append: "canceled (xs @ ys) = canceled xs @ canceled ys"
  by (induction xs rule: canceled.induct) simp_all

lemma launched_append: "launched (xs @ ys) = launched xs @ launched ys"
  by (induction xs rule: launched.induct) simp_all

lemma new_events_append: "trace w' = trace w @ es \<Longrightarrow> new_events w w' = es"
  by (simp add: new_events_def)

lemma poll_started_tokens: "list_all ev_poll es \<Longrightarrow> started_tokens es = []"
  by (induction es rule: started_tokens.induct) simp_all

lemma poll_canceled: "list_all ev_poll es \<Longrightarrow> canceled es = []"
  by (induction es rule: canceled.induct) simp_all

lemma poll_launched: "list_all ev_poll es \<Longrightarrow> launched es = []"
  by (induction es rule: launched.induct) simp_all

lemma ctx_request_effect:
  "ctx_request e ev w = (a, w') \<Longrightarrow>
     trace w' = trace w @ [ev] \<and> step w \<le> step w' \<and>
     (a \<longrightarrow> step w' = Suc (step w) \<and> \<not> ctx_Done e w') \<and>
     (ctx_Done e w \<longrightarrow> \<not> a) \<and>
     (\<forall>t. cancel_at e = Some t \<longrightarrow> now w' \<le> max (now w) t)"
  by (auto simp: ctx_request_def ctx_Done_def emit_def call_def split: option.splits if_splits)

lemma healthz_cond_effect:
  "healthz_cond e k w = (q, w') \<Longrightarrow>
     (\<exists>b. q = Inr b \<and>
          (b \<longrightarrow> healthz_Get e (step w) k = Some 200 \<and> step w' = Suc (step w) \<and>
                 \<not> ctx_Done e w')) \<and>
     (ctx_Done e w \<longrightarrow> q = Inr False) \<and>
     step w \<le> step w' \<and> ticks (trace w') = ticks (trace w) \<and>
     health_checks (trace w') = Suc (health_checks (trace w)) \<and>
     (\<forall>t. cancel_at e = Some t \<longrightarrow> now w' \<le> max (now w) t)"
proof -
  assume a: "healthz_cond e k w = (q, w')"
  obtain b w1 where r: "ctx_request e (EvHealthz k) w = (b, w1)"
    by (cases "ctx_request e (EvHealthz k) w")
  note re = ctx_request_effect [OF r]
  from a r have w': "w' = w1" and q: "q = Inr (b \<and> healthz_Get e (step w) k = Some 200)"
    by (auto simp: healthz_cond_def Let_def split: option.splits if_splits)
  show ?thesis using re unfolding w' q
    by (auto simp: ticks_append health_checks_append)
qed

lemma wait_tick_effect:
  "wait_tick e i w = (b, w') \<Longrightarrow>
     step w' = step w \<and> health_checks (trace w') = health_checks (trace w) \<and>
     ticks (trace w') = ticks (trace w) @ (if b then [i] else []) \<and>
     (\<forall>t. cancel_at e = Some t \<longrightarrow> now w' \<le> max (now w) t)"
  by (auto simp: wait_tick_def ticks_append health_checks_append split: option.splits if_splits)

lemma poll_closed_effect:
  assumes "poll_closed e (healthz_cond e k) w = (r, w')"
  shows "ticks (trace w') = ticks (trace w) \<and>
     health_checks (trace w) \<le> health_checks (trace w') \<and>
     health_checks (trace w') \<le> Suc (health_checks (trace w)) \<and>
     (r = None \<longrightarrow> (\<exists>s. step w \<le> s \<and> s < step w' \<and> healthz_Get e s k = Some 200) \<and>
                  \<not> ctx_Done e w') \<and>
     (\<forall>err. r = Some err \<longrightarrow> err = ErrWaitTimeout) \<and>
     step w \<le> step w' \<and>
     (\<forall>t. cancel_at e = Some t \<longrightarrow> now w' \<le> max (now w) t)"
proof (cases "ctx_Done e w")
  case True
  with assms show ?thesis by (auto simp: poll_closed_def)
next
  case False
  obtain q w1 where cq: "healthz_cond e k w = (q, w1)" by (cases "healthz_cond e k w")
  note ce = healthz_cond_effect [OF cq]
  then obtain b where b: "q = Inr b" by blast
  show ?thesis
  proof (cases b)
    case True
    with assms False cq b have "r = None" "w' = w1" by (auto simp: poll_closed_def)
    with ce b True show ?thesis by (intro conjI impI exI [of _ "step w"] allI) auto
  next
    case f: False
    with assms False cq b have "r = Some ErrWaitTimeout" "w' = w1"
      by (auto simp: poll_closed_def)
    with ce show ?thesis by auto
  qed
qed

lemma poll_ticks_effect:
  "poll_ticks e i d (healthz_cond e k) n w = (r, w') \<Longrightarrow>
     (\<exists>j\<le>n. ticks (trace w') = ticks (trace w) @ replicate j i \<and>
            health_checks (trace w) + j \<le> health_checks (trace w') \<and>
            health_checks (trace w') \<le> Suc (health_checks (trace w) + j)) \<and>
     (r = None \<longrightarrow> (\<exists>s. step w \<le> s \<and> s < step w' \<and> healthz_Get e s k = Some 200) \<and>
                  \<not> ctx_Done e w') \<and>
     (\<forall>err. r = Some err \<longrightarrow> err = ErrWaitTimeout) \<and>
     step w \<le> step w' \<and>
     (\<forall>t. cancel_at e = Some t \<longrightarrow> now w' \<le> max (now w) t)"
proof (induction n arbitrary: w)
  case 0
  then have "poll_closed e (healthz_cond e k) w = (r, w')" by simp
  from poll_closed_effect [OF this] show ?case by (intro conjI exI [of _ 0]) auto
next
  case (Suc n)
  show ?case
  proof (cases "d \<le> now w")
    case True
    with Suc.prems have "poll_closed e (healthz_cond e k) w = (r, w')" by simp
    from poll_closed_effect [OF this] show ?thesis by (intro conjI exI [of _ 0]) auto
  next
    case False
    obtain b w1 where t: "wait_tick e i w = (b, w1)" by (cases "wait_tick e i w")
    note te = wait_tick_effect [OF t]
    show ?thesis
    proof (cases b)
      case f: False
      with Suc.prems False t have "r = Some ErrWaitTimeout" "w' = w1" by auto
      with te f show ?thesis by (intro conjI exI [of _ 0]) auto
    next
      case True
      obtain q w2 where cq: "healthz_cond e k w1 = (q, w2)" by (cases "healthz_cond e k w1")
      note ce = healthz_cond_effect [OF cq]
      then obtain ok where ok: "q = Inr ok" by blast
      have nw: "\<forall>t. cancel_at e = Some t \<longrightarrow> now w2 \<le> max (now w) t"
        using te ce by (metis max.absorb2 max.cobounded2 max_def order_trans nle_le)
      show ?thesis
      proof (cases ok)
        case ready: True
        with Suc.prems False t True cq ok have "r = None" "w' = w2" by auto
        with te ce ready True ok nw show ?thesis
          by (intro conjI exI [of _ 1] impI exI [of _ "step w1"] allI) auto
      next
        case notready: False
        with Suc.prems False t True cq ok
        have "poll_ticks e i d (healthz_cond e k) n w2 = (r, w')" by auto
        from Suc.IH [OF this] obtain j where j:
          "j \<le> n" "ticks (trace w') = ticks (trace w2) @ replicate j i"
          "health_checks (trace w2) + j \<le> health_checks (trace w')"
          "health_checks (trace w') \<le> Suc (health_checks (trace w2) + j)"
          "r = None \<longrightarrow> (\<exists>s. step w2 \<le> s \<and> s < step w' \<and> healthz_Get e s k = Some 200) \<and>
                  \<not> ctx_Done e w'"
          "\<forall>err. r = Some err \<longrightarrow> err = ErrWaitTimeout"
          "step w2 \<le> step w'"
          "\<forall>t. cancel_at e = Some t \<longrightarrow> now w' \<le> max (now w2) t"
          by blast
        have "\<exists>j'\<le>Suc n. ticks (trace w') = ticks (trace w) @ replicate j' i \<and>
                health_checks (trace w) + j' \<le> health_checks (trace w') \<and>
                health_checks (trace w') \<le> Suc (health_checks (trace w) + j')"
          using j te ce True by (intro exI [of _ "Suc j"]) (simp add: replicate_append_same)
        moreover have "r = None \<longrightarrow>
            (\<exists>s. step w \<le> s \<and> s < step w' \<and> healthz_Get e s k = Some 200) \<and> \<not> ctx_Done e w'"
          using j(5) te ce by (metis order_trans)
        moreover have "step w \<le> step w'" using j(7) te ce by simp
        moreover have "\<forall>t. cancel_at e = Some t \<longrightarrow> now w' \<le> max (now w) t"
          using j(8) nw by (metis max.absorb2 max.cobounded2 max_def order_trans nle_le)
        ultimately show ?thesis using j(6) by blast
      qed
    qed
  qed
qed

lemma healthz_poll_effect:
  assumes "PollImmediateWithContext e i t (healthz_cond e k) w = (r, w')"
  shows "(\<exists>j\<le>t div i. ticks (trace w') = ticks (trace w) @ replicate j i \<and>
            Suc (health_checks (trace w) + j) \<le> health_checks (trace w') \<and>
            health_checks (trace w') \<le> health_checks (trace w) + j + 2) \<and>
         (r = None \<longrightarrow> (\<exists>s. step w \<le> s \<and> s < step w' \<and> healthz_Get e s k = Some 200) \<and>
                      \<not> ctx_Done e w') \<and>
         (\<forall>err. r = Some err \<longrightarrow> err = ErrWaitTimeout) \<and>
         (\<forall>c. cancel_at e = Some c \<longrightarrow> now w' \<le> max (now w) c)"
proof -
  obtain q w1 where cq: "healthz_cond e k w = (q, w1)" by (cases "healthz_cond e k w")
  note ce = healthz_cond_effect [OF cq]
  then obtain ok where ok: "q = Inr ok" by blast
  show ?thesis
  proof (cases ok)
    case True
    with assms cq ok have "r = None" "w' = w1" by (auto simp: PollImmediateWithContext_def)
    with ce True ok show ?thesis
      by (intro conjI exI [of _ 0] impI exI [of _ "step w"] allI) auto
  next
    case notready: False
    show ?thesis
    proof (cases "ctx_Done e w1")
      case True
      with assms cq ok notready have "r = Some ErrWaitTimeout" "w' = w1"
        by (auto simp: PollImmediateWithContext_def)
      with ce show ?thesis by (intro conjI exI [of _ 0]) auto
    next
      case False
      with assms cq ok notready
      have "poll_ticks e i (now w1 + t) (healthz_cond e k) (t div i) w1 = (r, w')"
        by (auto simp: PollImmediateWithContext_def)
      from poll_ticks_effect [OF this] obtain j where j:
        "j \<le> t div i" "ticks (trace w') = ticks (trace w1) @ replicate j i"
        "health_checks (trace w1) + j \<le> health_checks (trace w')"
        "health_checks (trace w') \<le> Suc (health_checks (trace w1) + j)"
        "r = None \<longrightarrow> (\<exists>s. step w1 \<le> s \<and> s < step w' \<and> healthz_Get e s k = Some 200) \<and>
                  \<not> ctx_Done e w'"
        "\<forall>err. r = Some err \<longrightarrow> err = ErrWaitTimeout"
        "\<forall>c. cancel_at e = Some c \<longrightarrow> now w' \<le> max (now w1) c"
        by blast
      have "r = None \<longrightarrow> (\<exists>s. step w \<le> s \<and> s < step w' \<and> healthz_Get e s k = Some 200) \<and>
                  \<not> ctx_Done e w'"
        using j(5) ce by (metis order_trans)
      moreover have "\<forall>c. cancel_at e = Some c \<longrightarrow> now w' \<le> max (now w) c"
        using j(7) ce by (metis max.absorb2 max.cobounded2 max_def order_trans nle_le)
      ultimately show ?thesis using j ce by (intro conjI exI [of _ j]) auto
    qed
  qed
qed

lemma startCCM_readiness:
  assumes "startCloudControllerManager e x k cl w = (r, w')"
  shows "(\<exists>j\<le>30. ticks (trace w') = ticks (trace w) @ replicate j 1 \<and>
             Suc (health_checks (trace w) + j) \<le> health_checks (trace w') \<and>
             health_checks (trace w') \<le> health_checks (trace w) + j + 2) \<and>
         (\<forall>m. r = Inr m \<longrightarrow> (\<exists>s. step w \<le> s \<and> s < step w' \<and> healthz_Get e s k = Some 200))"
  using assms
proof (cases rule: startCCM_cases)
  case (poll_failed err w1)
  from healthz_poll_effect [OF poll_failed(1)] show ?thesis
    unfolding poll_failed(2,3) by (simp add: trace_emit ticks_append health_checks_append)
next
  case (service_failed err w1)
  from healthz_poll_effect [OF service_failed(1)] show ?thesis
    unfolding service_failed(3,4) by (simp add: ticks_append health_checks_append)
next
  case (node_failed err w1)
  from healthz_poll_effect [OF node_failed(1)] show ?thesis
    unfolding node_failed(4,5) by (simp add: ticks_append health_checks_append)
next
  case (started m w1)
  from healthz_poll_effect [OF started(1)] obtain j s where js:
    "j \<le> 30" "ticks (trace w1) = ticks (trace w) @ replicate j 1"
    "Suc (health_checks (trace w) + j) \<le> health_checks (trace w1)"
    "health_checks (trace w1) \<le> health_checks (trace w) + j + 2"
    "step w \<le> s" "s < step w1" "healthz_Get e s k = Some 200"
    by auto
  have "s < step w'" using js(6) started(9) by simp
  with js show ?thesis
    unfolding started(6) by (auto simp: ticks_append health_checks_append)
qed

lemma healthz_poll_signal:
  assumes "cancel_at e = Some t"
    and "PollImmediateWithContext e i d (healthz_cond e k) w = (r, w1)"
  shows "now w1 \<le> max (now w) t \<and> (t \<le> now w1 \<longrightarrow> r = Some ErrWaitTimeout)"
proof -
  note pe = healthz_poll_effect [OF assms(2)]
  have "now w1 \<le> max (now w) t" using pe assms(1) by blast
  moreover have "t \<le> now w1 \<longrightarrow> r = Some ErrWaitTimeout"
  proof
    assume "t \<le> now w1"
    then have "ctx_Done e w1" using assms(1) by (simp add: ctx_Done_def)
    with pe have "r \<noteq> None" by blast
    then obtain err where "r = Some err" by (cases r) auto
    with pe show "r = Some ErrWaitTimeout" by blast
  qed
  ultimately show ?thesis by blast
qed




lemma startCCM_never_ready:
  assumes "\<forall>s. healthz_Get e s k \<noteq> Some 200"
  shows "\<exists>err. fst (startCloudControllerManager e x k cl w) = Inl err"
proof -
  obtain r w' where s: "startCloudControllerManager e x k cl w = (r, w')"
    by (cases "startCloudControllerManager e x k cl w")
  from startCCM_readiness [OF s] assms have "\<forall>m. r \<noteq> Inr m" by blast
  then obtain err where "r = Inl err" by (cases r) auto
  with s show ?thesis by simp
qed




lemma startCCM_service_failed:
  assumes "PollImmediateWithContext e 1 30 (healthz_cond e k) w = (None, w1)"
    and "servicecontroller_New e (step w1) x = Some err"
  shows "\<exists>w'. startCloudControllerManager e x k cl w = (Inl err, w') \<and>
              trace w' = trace w1 @ [EvServiceNew x, EvLog ''Failed to start service controller''] \<and>
              next_ctx w' = next_ctx w1"
  using assms by (simp add: startCloudControllerManager_def Let_def emit_def call_def)

lemma startCCM_node_failed:
  assumes "PollImmediateWithContext e 1 30 (healthz_cond e k) w = (None, w1)"
    and "servicecontroller_New e (step w1) x = None"
    and "NewCloudNodeController e (Suc (step w1)) x = Some err"
  shows "\<exists>w'. startCloudControllerManager e x k cl w = (Inl err, w') \<and>
              trace w' = trace w1 @ [EvServiceNew x, EvServiceRun x (next_ctx w1), EvNodeNew x,
                                     EvLog ''Failed to start node controller'',
                                     EvCancel (next_ctx w1)]"
  using assms by (simp add: startCloudControllerManager_def Let_def emit_def call_def)

lemma startCCM_error_no_orphans:
  assumes "startCloudControllerManager e x k cl w = (Inl err, w')"
  shows "orphans (new_events w w') = [] \<and> launched (new_events w w') = []"
  using assms
proof (cases rule: startCCM_cases)
  case (poll_failed err' w1)
  from healthz_poll_quiet [OF poll_failed(1)] obtain es where
    es: "trace w1 = trace w @ es" "list_all ev_poll es" by (auto simp: quiet_def)
  have "new_events w w' = es @ [EvLog ''Failed waiting for apiserver to be ready'']"
    using es(1) poll_failed(3) by (simp add: new_events_def trace_emit)
  then show ?thesis
    using es(2) by (simp add: orphans_def started_tokens_append launched_append
                              poll_started_tokens poll_launched)
next
  case (service_failed err' w1)
  from healthz_poll_quiet [OF service_failed(1)] obtain es where
    es: "trace w1 = trace w @ es" "list_all ev_poll es" by (auto simp: quiet_def)
  have "new_events w w' = es @ [EvServiceNew x, EvLog ''Failed to start service controller'']"
    using es(1) service_failed(4) by (simp add: new_events_def)
  then show ?thesis
    using es(2) by (simp add: orphans_def started_tokens_append launched_append
                              poll_started_tokens poll_launched)
next
  case (node_failed err' w1)
  from healthz_poll_quiet [OF node_failed(1)] obtain es where
    es: "trace w1 = trace w @ es" "list_all ev_poll es" by (auto simp: quiet_def)
  have "new_events w w' = es @ [EvServiceNew x, EvServiceRun x (next_ctx w1), EvNodeNew x,
                              EvLog ''Failed to start node controller'', EvCancel (next_ctx w1)]"
    using es(1) node_failed(5) by (simp add: new_events_def)
  then show ?thesis
    using es(2) by (simp add: orphans_def started_tokens_append launched_append canceled_append
                              poll_started_tokens poll_launched poll_canceled)
next
  case (started m w1)
  then show ?thesis by simp
qed

lemma add_cluster_launch_failed:
  assumes "map_of (clusters c) x = None" and "getKubeClient e x w = (Inr k, w1)"
    and "startCloudControllerManager e x k (Cloud x) (emit (EvProviderNew x) w1) = (Inl err, w2)"
  shows "add_cluster e x (c, w)
           = (c, emit (EvLog ''Failed to start cloud controller for cluster'') w2)"
  using assms by (simp add: add_cluster_def)

lemma try_variant_first_event:
  assumes "try_variant e x v w = (r, w')"
  shows "\<exists>es. trace w' = trace w @ EvKubeConfig x v # es"
proof -
  let ?w1 = "call e (EvKubeConfig x v) w"
  have t1: "trace ?w1 = trace w @ [EvKubeConfig x v]" by (simp add: trace_call)
  have "\<exists>fs. trace w' = trace ?w1 @ fs"
  proof -
    have pl: "\<And>h q u. probe_loop e h [0..<5] ?w1 = (q, u) \<Longrightarrow> \<exists>fs. trace u = trace ?w1 @ fs"
    proof -
      fix h q u
      assume "probe_loop e h [0..<5] ?w1 = (q, u)"
      then have "quiet ev_probe ?w1 u" by (rule probe_loop_quiet)
      then show "\<exists>fs. trace u = trace ?w1 @ fs" unfolding quiet_def by blast
    qed
    show ?thesis
      using assms unfolding try_variant_def Let_def
      by (auto split: sum.splits prod.splits bool.splits option.splits
               dest!: pl simp: trace_emit)
  qed
  then show ?thesis using t1 by auto
qed

lemma add_cluster_bootstraps:
  assumes "map_of (clusters c) x = None"
  shows "\<exists>es. trace (snd (add_cluster e x (c, w))) = trace w @ EvKubeConfig x False # es"
proof -
  obtain q w1 where t: "try_variant e x False w = (q, w1)" by (cases "try_variant e x False w")
  from try_variant_first_event [OF t] obtain es where
    es: "trace w1 = trace w @ EvKubeConfig x False # es" by blast
  obtain r w2 where g: "getKubeClient e x w = (r, w2)" by (cases "getKubeClient e x w")
  have "\<exists>fs. trace w2 = trace w1 @ fs"
  proof (cases q)
    case None
    with g t have "try_variants e x [True] w1 = (r, w2)" by (simp add: getKubeClient_def)
    from try_variants_quiet [OF this] show ?thesis by (auto simp: quiet_def)
  next
    case (Some a)
    with g t show ?thesis by (simp add: getKubeClient_def)
  qed
  then obtain fs where fs: "trace w2 = trace w1 @ fs" by blast
  obtain c3 w3 where a: "add_cluster e x (c, w) = (c3, w3)" by (cases "add_cluster e x (c, w)")
  have "\<exists>gs. trace w3 = trace w2 @ gs"
  proof (cases r)
    case (Inl err)
    with a g assms show ?thesis by (auto simp: add_cluster_def trace_emit)
  next
    case (Inr kc)
    obtain q3 u where s: "startCloudControllerManager e x kc (Cloud x) (emit (EvProviderNew x) w2) = (q3, u)"
      by (cases "startCloudControllerManager e x kc (Cloud x) (emit (EvProviderNew x) w2)")
    from startCCM_grows [OF s] obtain hs where "trace u = trace w2 @ EvProviderNew x # hs"
      by (auto simp: grows_def trace_emit)
    with a g assms Inr s show ?thesis
      by (cases q3) (auto simp: add_cluster_def trace_emit)
  qed
  with es fs a show ?thesis by auto
qed

lemma add_new_retries:
  assumes "map_of (clusters c) x = None" and "\<not> ctx_Done e w"
  shows "\<exists>es. trace (snd (snd (add_new e (x # xs) (c, w)))) = trace w @ EvKubeConfig x False # es"
proof -
  obtain c1 w1 where a: "add_cluster e x (c, w) = (c1, w1)" by (cases "add_cluster e x (c, w)")
  from add_cluster_bootstraps [OF assms(1), of e w] a obtain es where
    es: "trace w1 = trace w @ EvKubeConfig x False # es" by auto
  obtain b c2 w2 where n: "add_new e xs (c1, w1) = (b, c2, w2)" by (cases "add_new e xs (c1, w1)")
  from add_new_grows [OF n] obtain fs where "trace w2 = trace w1 @ fs" by (auto simp: grows_def)
  with es a n assms(2) show ?thesis by auto
qed

lemmas launch_simps =
  startCloudControllerManager_def PollImmediateWithContext_def healthz_cond_def wait_tick_def
  ctx_request_def poll_closed_def add_cluster_def New_def

subsection \<open>The lifecycle invariant\<close>

lemma boot_launched: "list_all (ev_boot x) es \<Longrightarrow> launched es = []"
  by (induction es rule: launched.induct) simp_all

lemma boot_canceled: "list_all (ev_boot x) es \<Longrightarrow> canceled es = []"
  by (induction es rule: canceled.induct) simp_all

lemma same_life_refl: "same_life w w"
  by (simp add: same_life_def)

lemma same_life_trans: "same_life w w1 \<Longrightarrow> same_life w1 w2 \<Longrightarrow> same_life w w2"
  by (simp add: same_life_def)

lemma quiet_boot_same_life: "quiet (ev_boot x) w w' \<Longrightarrow> same_life w w'"
  by (auto simp: quiet_def same_life_def launched_append canceled_append boot_launched boot_canceled)

lemma quiet_poll_same_life: "quiet ev_poll w w' \<Longrightarrow> same_life w w'"
  by (auto simp: quiet_def same_life_def launched_append canceled_append poll_launched poll_canceled)

lemma same_life_emit_log: "same_life w (emit (EvLog l) w)"
  by (simp add: same_life_def emit_def launched_append canceled_append)

lemma same_life_emit_provider: "same_life w (emit (EvProviderNew x) w)"
  by (simp add: same_life_def trace_emit launched_append canceled_append emit_def)

lemma same_life_sleep: "same_life w (time_Sleep d w)"
  by (simp add: same_life_def time_Sleep_def launched_append canceled_append)

lemma same_life_list:
  "same_life w (case snd (kind_List e (step w)) of
                  Some err \<Rightarrow> emit (EvLog l) (call e EvList w)
                | None \<Rightarrow> call e EvList w)"
  by (simp add: same_life_def emit_def call_def launched_append canceled_append split: option.splits)

lemma lifecycle_inv_same_life:
  "lifecycle_inv (c, w) \<Longrightarrow> same_life w w' \<Longrightarrow> lifecycle_inv (c, w')"
  by (simp add: lifecycle_inv_def same_life_def running_def)

lemma lifecycle_inv_bounds:
  assumes "lifecycle_inv (c, w)"
  shows "\<forall>p\<in>set (launched (trace w)). snd p < next_ctx w"
    and "\<forall>t\<in>set (canceled (trace w)). t < next_ctx w"
  using assms unfolding lifecycle_inv_def list_all_append by (simp_all add: list_all_iff)

lemma startCCM_life:
  assumes "startCloudControllerManager e x k cl w = (r, w')"
  shows "(\<exists>err. r = Inl err \<and> same_life w w') \<or>
         (\<exists>err. r = Inl err \<and> launched (trace w') = launched (trace w) \<and>
                canceled (trace w') = canceled (trace w) @ [next_ctx w] \<and>
                next_ctx w' = Suc (next_ctx w)) \<or>
         (\<exists>m. r = Inr m \<and> cancelFn m = next_ctx w \<and>
              launched (trace w') = launched (trace w) @ [(x, next_ctx w)] \<and>
              canceled (trace w') = canceled (trace w) \<and>
              next_ctx w' = Suc (next_ctx w))"
  using assms
proof (cases rule: startCCM_cases)
  case (poll_failed err w1)
  have "same_life w w1" using healthz_poll_quiet [OF poll_failed(1)] by (rule quiet_poll_same_life)
  then have "same_life w w'"
    unfolding poll_failed(3) by (blast intro: same_life_trans same_life_emit_log)
  with poll_failed(2) show ?thesis by blast
next
  case (service_failed err w1)
  have "same_life w w1" using healthz_poll_quiet [OF service_failed(1)] by (rule quiet_poll_same_life)
  then have "same_life w w'"
    using service_failed(4,5) by (simp add: same_life_def launched_append canceled_append)
  with service_failed(3) show ?thesis by blast
next
  case (node_failed err w1)
  have "same_life w w1" using healthz_poll_quiet [OF node_failed(1)] by (rule quiet_poll_same_life)
  then have "launched (trace w') = launched (trace w) \<and>
             canceled (trace w') = canceled (trace w) @ [next_ctx w] \<and>
             next_ctx w' = Suc (next_ctx w)"
    using node_failed(5,6) by (simp add: same_life_def launched_append canceled_append)
  with node_failed(4) show ?thesis by blast
next
  case (started m w1)
  have "same_life w w1" using healthz_poll_quiet [OF started(1)] by (rule quiet_poll_same_life)
  then have "cancelFn m = next_ctx w \<and>
             launched (trace w') = launched (trace w) @ [(x, next_ctx w)] \<and>
             canceled (trace w') = canceled (trace w) \<and>
             next_ctx w' = Suc (next_ctx w)"
    using started(5,6,7) by (simp add: same_life_def launched_append canceled_append)
  with started(4) show ?thesis by blast
qed

lemma update_absent: "map_of al k = None \<Longrightarrow> AList.update k v al = al @ [(k, v)]"
  by (induction al) (auto split: if_splits)

lemma lifecycle_inv_cancel_fresh:
  assumes "lifecycle_inv (c, w)" "launched (trace w') = launched (trace w)"
    "canceled (trace w') = canceled (trace w) @ [next_ctx w]" "next_ctx w' = Suc (next_ctx w)"
  shows "lifecycle_inv (c, w')"
proof -
  note b = lifecycle_inv_bounds [OF assms(1)]
  have fresh: "\<forall>p\<in>set (launched (trace w)). snd p \<noteq> next_ctx w"
    using b(1) by auto
  have "running (trace w') = running (trace w)"
    unfolding running_def assms(2,3) using fresh by (auto intro: filter_cong)
  moreover have "list_all (\<lambda>t. t < Suc (next_ctx w))
       (map snd (launched (trace w)) @ canceled (trace w) @ [next_ctx w])"
    using b by (auto simp: list_all_iff less_Suc_eq)
  ultimately show ?thesis
    using assms by (simp add: lifecycle_inv_def)
qed

lemma lifecycle_inv_launch:
  assumes "lifecycle_inv (c, w)" "map_of (clusters c) x = None" "cancelFn m = next_ctx w"
    "launched (trace w') = launched (trace w) @ [(x, next_ctx w)]"
    "canceled (trace w') = canceled (trace w)" "next_ctx w' = Suc (next_ctx w)"
  shows "lifecycle_inv (c\<lparr>clusters := AList.update x m (clusters c)\<rparr>, w')"
proof -
  have up: "AList.update x m (clusters c) = clusters c @ [(x, m)]"
    using assms(2) by (rule update_absent)
  have notkey: "x \<notin> fst ` set (clusters c)"
    using assms(2) by (simp add: map_of_eq_None_iff)
  note b = lifecycle_inv_bounds [OF assms(1)]
  have fresh: "next_ctx w \<notin> set (canceled (trace w))" "next_ctx w \<notin> snd ` set (launched (trace w))"
    using b by auto
  have "running (trace w') = running (trace w) @ [(x, next_ctx w)]"
    unfolding running_def assms(4,5) using fresh by simp
  moreover have "handles (c\<lparr>clusters := AList.update x m (clusters c)\<rparr>) = handles c @ [(x, next_ctx w)]"
    by (simp add: handles_def up assms(3))
  moreover have "list_all (\<lambda>t. t < Suc (next_ctx w))
       (map snd (launched (trace w) @ [(x, next_ctx w)]) @ canceled (trace w))"
    using b by (auto simp: list_all_iff less_Suc_eq)
  ultimately show ?thesis
    using assms(1,4,5,6) notkey fresh by (simp add: lifecycle_inv_def up)
qed

lemma add_cluster_inv:
  assumes "lifecycle_inv (c, w)" "add_cluster e x (c, w) = (c', w')"
  shows "lifecycle_inv (c', w')"
proof (cases "map_of (clusters c) x")
  case (Some m)
  with assms show ?thesis by (simp add: add_cluster_def)
next
  case None
  obtain r w1 where g: "getKubeClient e x w = (r, w1)" by (cases "getKubeClient e x w")
  have l1: "same_life w w1" using getKubeClient_quiet [OF g] by (rule quiet_boot_same_life)
  show ?thesis
  proof (cases r)
    case (Inl err)
    with assms None g have "c' = c" "w' = emit (EvLog ''Failed to create kubeClient for cluster'') w1"
      by (simp_all add: add_cluster_def)
    with assms(1) l1 show ?thesis
      by (blast intro: lifecycle_inv_same_life same_life_trans same_life_emit_log)
  next
    case (Inr kc)
    let ?w2 = "emit (EvProviderNew x) w1"
    have l2: "same_life w ?w2" using l1 same_life_emit_provider by (rule same_life_trans)
    have i2: "lifecycle_inv (c, ?w2)" using assms(1) l2 by (rule lifecycle_inv_same_life)
    obtain q w3 where s: "startCloudControllerManager e x kc (Cloud x) ?w2 = (q, w3)"
      by (cases "startCloudControllerManager e x kc (Cloud x) ?w2")
    from startCCM_life [OF s] consider
      (quiet_err) err where "q = Inl err" "same_life ?w2 w3"
    | (cancel_err) err where "q = Inl err" "launched (trace w3) = launched (trace ?w2)"
        "canceled (trace w3) = canceled (trace ?w2) @ [next_ctx ?w2]"
        "next_ctx w3 = Suc (next_ctx ?w2)"
    | (ok) m where "q = Inr m" "cancelFn m = next_ctx ?w2"
        "launched (trace w3) = launched (trace ?w2) @ [(x, next_ctx ?w2)]"
        "canceled (trace w3) = canceled (trace ?w2)" "next_ctx w3 = Suc (next_ctx ?w2)"
      by blast
    then show ?thesis
    proof cases
      case quiet_err
      with assms(2) None g Inr s
      have cw: "c' = c" "w' = emit (EvLog ''Failed to start cloud controller for cluster'') w3"
        by (simp_all add: add_cluster_def)
      have "lifecycle_inv (c, w3)" using i2 quiet_err(2) by (rule lifecycle_inv_same_life)
      then show ?thesis unfolding cw by (rule lifecycle_inv_same_life) (rule same_life_emit_log)
    next
      case cancel_err
      with assms(2) None g Inr s
      have cw: "c' = c" "w' = emit (EvLog ''Failed to start cloud controller for cluster'') w3"
        by (simp_all add: add_cluster_def)
      have "lifecycle_inv (c, w3)" using i2 cancel_err(2,3,4) by (rule lifecycle_inv_cancel_fresh)
      then show ?thesis unfolding cw by (rule lifecycle_inv_same_life) (rule same_life_emit_log)
    next
      case ok
      with assms(2) None g Inr s
      have cw: "c' = c\<lparr>clusters := AList.update x m (clusters c)\<rparr>"
               "w' = emit (EvLog ''Starting cloud controller for cluster'') w3"
        by (simp_all add: add_cluster_def)
      have "lifecycle_inv (c\<lparr>clusters := AList.update x m (clusters c)\<rparr>, w3)"
        using i2 None ok(2,3,4,5) by (rule lifecycle_inv_launch)
      then show ?thesis unfolding cw by (rule lifecycle_inv_same_life) (rule same_life_emit_log)
    qed
  qed
qed

lemma add_new_inv:
  "lifecycle_inv (c, w) \<Longrightarrow> add_new e xs (c, w) = (b, c', w') \<Longrightarrow> lifecycle_inv (c', w')"
proof (induction xs arbitrary: c w)
  case Nil
  then show ?case by simp
next
  case (Cons x xs)
  show ?case
  proof (cases "ctx_Done e w")
    case True
    with Cons.prems show ?thesis by simp
  next
    case False
    obtain c1 w1 where a: "add_cluster e x (c, w) = (c1, w1)" by (cases "add_cluster e x (c, w)")
    have "lifecycle_inv (c1, w1)" using Cons.prems(1) a by (rule add_cluster_inv)
    moreover have "add_new e xs (c1, w1) = (b, c', w')" using Cons.prems(2) False a by simp
    ultimately show ?thesis by (rule Cons.IH)
  qed
qed

lemma handles_mem: "(x, m) \<in> set (clusters c) \<Longrightarrow> (x, cancelFn m) \<in> set (handles c)"
  by (force simp: handles_def)

lemma distinct_snd_inj:
  "distinct (map snd ps) \<Longrightarrow> p \<in> set ps \<Longrightarrow> q \<in> set ps \<Longrightarrow> snd p = snd q \<Longrightarrow> p = q"
  by (meson distinct_map inj_onD)

lemma distinct_fst_inj:
  "distinct (map fst ps) \<Longrightarrow> p \<in> set ps \<Longrightarrow> q \<in> set ps \<Longrightarrow> fst p = fst q \<Longrightarrow> p = q"
  by (meson distinct_map inj_onD)

lemma running_subset: "set (running tr) \<subseteq> set (launched tr)"
  by (auto simp: running_def)

lemma lifecycle_inv_remove:
  assumes inv: "lifecycle_inv (c, w)" and mem: "(x, m) \<in> set (clusters c)"
  shows "lifecycle_inv (c\<lparr>clusters := AList.delete x (clusters c)\<rparr>,
                        emit (EvCancel (cancelFn m)) (emit (EvLog l) w))"
proof -
  let ?t = "cancelFn m"
  let ?w' = "emit (EvCancel ?t) (emit (EvLog l) w)"
  let ?c' = "c\<lparr>clusters := AList.delete x (clusters c)\<rparr>"
  have dk: "distinct (map fst (clusters c))"
    and hr: "set (handles c) = set (running (trace w))"
    and dt: "distinct (map snd (launched (trace w)))"
    using inv by (simp_all add: lifecycle_inv_def)
  note b = lifecycle_inv_bounds [OF inv]
  have tr: "launched (trace ?w') = launched (trace w)"
           "canceled (trace ?w') = canceled (trace w) @ [?t]"
           "next_ctx ?w' = next_ctx w"
    by (simp_all add: emit_def launched_append canceled_append)
  have xt: "(x, ?t) \<in> set (handles c)" using mem by (rule handles_mem)
  then have xtl: "(x, ?t) \<in> set (launched (trace w))" using hr running_subset by blast
  have dh: "distinct (map fst (handles c))"
    using dk by (simp add: handles_def comp_def)
  have key: "\<And>p. p \<in> set (handles c) \<Longrightarrow> fst p \<noteq> x \<longleftrightarrow> snd p \<noteq> ?t"
  proof -
    fix p
    assume p: "p \<in> set (handles c)"
    show "fst p \<noteq> x \<longleftrightarrow> snd p \<noteq> ?t"
    proof
      assume "fst p \<noteq> x"
      show "snd p \<noteq> ?t"
      proof
        assume "snd p = ?t"
        moreover have "p \<in> set (launched (trace w))" using p hr running_subset by blast
        ultimately have "p = (x, ?t)" using dt xtl distinct_snd_inj [of "launched (trace w)" p "(x, ?t)"]
          by simp
        with \<open>fst p \<noteq> x\<close> show False by simp
      qed
    next
      assume "snd p \<noteq> ?t"
      show "fst p \<noteq> x"
      proof
        assume "fst p = x"
        then have "p = (x, ?t)" using dh p xt distinct_fst_inj [of "handles c" p "(x, ?t)"] by simp
        with \<open>snd p \<noteq> ?t\<close> show False by simp
      qed
    qed
  qed
  have h': "set (handles ?c') = {p \<in> set (handles c). fst p \<noteq> x}"
    by (auto simp: handles_def AList.delete_eq)
  have r': "set (running (trace ?w')) = {p \<in> set (running (trace w)). snd p \<noteq> ?t}"
    unfolding running_def tr by auto
  have "set (handles ?c') = set (running (trace ?w'))"
    unfolding h' r' using key hr by auto
  moreover have "distinct (map fst (clusters ?c'))"
    using dk by (simp add: distinct_delete)
  moreover have "?t < next_ctx w" using b(1) xtl by auto
  then have "list_all (\<lambda>t. t < next_ctx ?w') (map snd (launched (trace ?w')) @ canceled (trace ?w'))"
    unfolding tr using b by (auto simp: list_all_iff)
  ultimately show ?thesis
    using dt by (simp add: lifecycle_inv_def tr(1))
qed

lemma remove_expired_inv:
  "lifecycle_inv (c, w) \<Longrightarrow> set ms \<subseteq> set (clusters c) \<Longrightarrow> distinct (map fst ms) \<Longrightarrow>
   remove_expired listed ms (c, w) = (c', w') \<Longrightarrow> lifecycle_inv (c', w')"
proof (induction ms arbitrary: c w)
  case Nil
  then show ?case by simp
next
  case (Cons p ms)
  obtain x m where p: "p = (x, m)" by (cases p)
  show ?case
  proof (cases "x \<in> set listed")
    case True
    with Cons.prems p have "remove_expired listed ms (c, w) = (c', w')" by simp
    with Cons.prems(1-3) show ?thesis by (auto intro: Cons.IH)
  next
    case False
    let ?c1 = "c\<lparr>clusters := AList.delete x (clusters c)\<rparr>"
    let ?w1 = "emit (EvCancel (cancelFn m)) (emit (EvLog ''Stopping service controller for cluster'') w)"
    have mem: "(x, m) \<in> set (clusters c)" using Cons.prems(2) p by simp
    have i1: "lifecycle_inv (?c1, ?w1)" using Cons.prems(1) mem by (rule lifecycle_inv_remove)
    have "x \<notin> fst ` set ms" using Cons.prems(3) p by simp
    then have "\<forall>q\<in>set ms. fst q \<noteq> x" by force
    then have sub: "set ms \<subseteq> set (clusters ?c1)"
      using Cons.prems(2) by (auto simp: AList.delete_eq)
    have d: "distinct (map fst ms)" using Cons.prems(3) by simp
    have "remove_expired listed ms (?c1, ?w1) = (c', w')" using Cons.prems(4) p False by simp
    with i1 sub d show ?thesis by (rule Cons.IH)
  qed
qed

lemma cycle_inv:
  assumes "lifecycle_inv (c, w)" "cycle e (c, w) = (b, c', w')"
  shows "lifecycle_inv (c', w')"
proof (cases "ctx_Done e w")
  case True
  with assms show ?thesis by (simp add: cycle_def)
next
  case False
  let ?listed = "fst (kind_List e (step w))"
  let ?w2 = "case snd (kind_List e (step w)) of
               Some err \<Rightarrow> emit (EvLog ''error listing clusters, retrying ...'') (call e EvList w)
             | None \<Rightarrow> call e EvList w"
  have i2: "lifecycle_inv (c, ?w2)" using assms(1) same_life_list by (rule lifecycle_inv_same_life)
  obtain b3 c3 w3 where a: "add_new e ?listed (c, ?w2) = (b3, c3, w3)"
    by (cases "add_new e ?listed (c, ?w2)")
  have i3: "lifecycle_inv (c3, w3)" using i2 a by (rule add_new_inv)
  show ?thesis
  proof (cases b3)
    case True
    with assms(2) False a have "c' = c3" "w' = w3" by (simp_all add: cycle_def Let_def)
    with i3 show ?thesis by simp
  next
    case f: False
    obtain c4 w4 where r: "remove_expired ?listed (clusters c3) (c3, w3) = (c4, w4)"
      by (cases "remove_expired ?listed (clusters c3) (c3, w3)")
    have "distinct (map fst (clusters c3))" using i3 by (simp add: lifecycle_inv_def)
    with i3 r have i4: "lifecycle_inv (c4, w4)" by (auto intro: remove_expired_inv)
    from assms(2) False a f r have "c' = c4" "w' = time_Sleep 30 w4"
      by (simp_all add: cycle_def Let_def)
    with i4 show ?thesis by (auto intro: lifecycle_inv_same_life same_life_sleep)
  qed
qed

lemma lifecycle_inv_init: "lifecycle_inv (New, world0)"
  by (simp add: lifecycle_inv_def New_def world0_def handles_def running_def)

lemma lifecycle_inv_keys:
  assumes "lifecycle_inv (c, w)"
  shows "fst ` set (clusters c) = fst ` set (running (trace w))"
proof -
  have "set (handles c) = set (running (trace w))" using assms by (simp add: lifecycle_inv_def)
  moreover have "fst ` set (handles c) = fst ` set (clusters c)"
    by (force simp: handles_def)
  ultimately show ?thesis by simp
qed

subsection \<open>Bootstraps, launches and removals in one pass\<close>

lemma attempts_append: "attempts x (xs @ ys) = attempts x xs @ attempts x ys"
  by (simp add: attempts_def)

lemma grows_attempts:
  assumes "grows P w w'" and "\<And>ev. P ev \<Longrightarrow> \<not> about x ev"
  shows "attempts x (trace w') = attempts x (trace w)"
proof -
  from assms(1) obtain es where es: "trace w' = trace w @ es" "list_all P es"
    by (auto simp: grows_def)
  have "filter (about x) es = []" using es(2) assms(2) by (auto simp: list_all_iff filter_empty_conv)
  with es(1) show ?thesis by (simp add: attempts_def)
qed

lemma ev_add_not_about: "x \<noteq> y \<Longrightarrow> ev_add y ev \<Longrightarrow> \<not> about x ev"
  by (cases ev) auto

lemma add_cluster_clusters:
  assumes "add_cluster e y (c, w) = (c', w')"
  shows "clusters c' = clusters c \<or> (\<exists>m. clusters c' = AList.update y m (clusters c))"
  using assms
  by (auto simp: add_cluster_def split: option.splits prod.splits sum.splits)

lemma add_cluster_attempts:
  assumes "x \<in> fst ` set (clusters c)" "add_cluster e y (c, w) = (c', w')"
  shows "attempts x (trace w') = attempts x (trace w) \<and> x \<in> fst ` set (clusters c')"
proof (cases "y = x")
  case True
  from assms(1) have "map_of (clusters c) x \<noteq> None" by (simp add: map_of_eq_None_iff)
  with assms(2) True show ?thesis using assms(1) by (auto simp: add_cluster_def)
next
  case False
  have "x \<noteq> y" using False by simp
  then have "\<And>ev. ev_add y ev \<Longrightarrow> \<not> about x ev" by (rule ev_add_not_about)
  with add_cluster_grows [OF assms(2)] have "attempts x (trace w') = attempts x (trace w)"
    by (rule grows_attempts)
  moreover have "fst ` set (clusters c') = fst ` set (clusters c) \<or>
                 fst ` set (clusters c') = {y} \<union> fst ` set (clusters c)"
    using add_cluster_clusters [OF assms(2)] by (metis dom_update)
  then have "x \<in> fst ` set (clusters c')" using assms(1) by blast
  ultimately show ?thesis by simp
qed

lemma add_new_attempts:
  "x \<in> fst ` set (clusters c) \<Longrightarrow> add_new e ys (c, w) = (b, c', w') \<Longrightarrow>
     attempts x (trace w') = attempts x (trace w)"
proof (induction ys arbitrary: c w)
  case Nil
  then show ?case by simp
next
  case (Cons y ys)
  show ?case
  proof (cases "ctx_Done e w")
    case True
    with Cons.prems show ?thesis by simp
  next
    case False
    obtain c1 w1 where a: "add_cluster e y (c, w) = (c1, w1)" by (cases "add_cluster e y (c, w)")
    note s = add_cluster_attempts [OF Cons.prems(1) a]
    have n: "add_new e ys (c1, w1) = (b, c', w')" using Cons.prems(2) False a by simp
    have k: "x \<in> fst ` set (clusters c1)" using s by simp
    have "attempts x (trace w') = attempts x (trace w1)" using k n by (rule Cons.IH)
    with s show ?thesis by simp
  qed
qed

lemma remove_expired_attempts:
  "remove_expired listed ms (c, w) = (c', w') \<Longrightarrow> attempts x (trace w') = attempts x (trace w)"
proof (induction ms arbitrary: c w)
  case Nil
  then show ?case by simp
next
  case (Cons p ms)
  obtain y m where p: "p = (y, m)" by (cases p)
  show ?case
  proof (cases "y \<in> set listed")
    case True
    with Cons.prems p show ?thesis by (auto intro: Cons.IH)
  next
    case False
    let ?w1 = "emit (EvCancel (cancelFn m)) (emit (EvLog ''Stopping service controller for cluster'') w)"
    have "remove_expired listed ms (c\<lparr>clusters := AList.delete y (clusters c)\<rparr>, ?w1) = (c', w')"
      using Cons.prems p False by simp
    then have "attempts x (trace w') = attempts x (trace ?w1)" by (rule Cons.IH)
    then show ?thesis by (simp add: emit_def attempts_def)
  qed
qed

lemma cycle_attempts:
  assumes "x \<in> fst ` set (clusters c)" "cycle e (c, w) = (b, c', w')"
  shows "attempts x (trace w') = attempts x (trace w)"
proof (cases "ctx_Done e w")
  case True
  with assms show ?thesis by (simp add: cycle_def)
next
  case False
  let ?listed = "fst (kind_List e (step w))"
  let ?w2 = "case snd (kind_List e (step w)) of
               Some err \<Rightarrow> emit (EvLog ''error listing clusters, retrying ...'') (call e EvList w)
             | None \<Rightarrow> call e EvList w"
  have a2: "attempts x (trace ?w2) = attempts x (trace w)"
    by (simp add: attempts_def emit_def call_def split: option.splits)
  obtain b3 c3 w3 where a: "add_new e ?listed (c, ?w2) = (b3, c3, w3)"
    by (cases "add_new e ?listed (c, ?w2)")
  have a3: "attempts x (trace w3) = attempts x (trace w)"
    using add_new_attempts [OF assms(1) a] a2 by simp
  show ?thesis
  proof (cases b3)
    case True
    with assms(2) False a have "w' = w3" by (simp add: cycle_def Let_def)
    with a3 show ?thesis by simp
  next
    case f: False
    obtain c4 w4 where r: "remove_expired ?listed (clusters c3) (c3, w3) = (c4, w4)"
      by (cases "remove_expired ?listed (clusters c3) (c3, w3)")
    from assms(2) False a f r have "w' = time_Sleep 30 w4" by (simp add: cycle_def Let_def)
    then have "attempts x (trace w') = attempts x (trace w4)"
      by (simp add: time_Sleep_def attempts_def)
    with remove_expired_attempts [OF r] a3 show ?thesis by simp
  qed
qed

lemma remove_expired_canceled:
  "remove_expired listed ms (c, w) = (c', w') \<Longrightarrow>
     canceled (trace w') =
       canceled (trace w) @ map (\<lambda>p. cancelFn (snd p)) (filter (\<lambda>p. fst p \<notin> set listed) ms)"
proof (induction ms arbitrary: c w)
  case Nil
  then show ?case by simp
next
  case (Cons p ms)
  obtain y m where p: "p = (y, m)" by (cases p)
  show ?case
  proof (cases "y \<in> set listed")
    case True
    with Cons.prems p show ?thesis by (auto dest: Cons.IH)
  next
    case False
    let ?w1 = "emit (EvCancel (cancelFn m)) (emit (EvLog ''Stopping service controller for cluster'') w)"
    have "remove_expired listed ms (c\<lparr>clusters := AList.delete y (clusters c)\<rparr>, ?w1) = (c', w')"
      using Cons.prems p False by simp
    from Cons.IH [OF this] show ?thesis
      using p False by (simp add: emit_def canceled_append)
  qed
qed

lemma remove_expired_lookup:
  "remove_expired listed ms (c, w) = (c', w') \<Longrightarrow>
     map_of (clusters c') x =
       (if x \<in> fst ` set ms \<and> x \<notin> set listed then None else map_of (clusters c) x)"
proof (induction ms arbitrary: c w)
  case Nil
  then show ?case by simp
next
  case (Cons p ms)
  obtain y m where p: "p = (y, m)" by (cases p)
  show ?case
  proof (cases "y \<in> set listed")
    case True
    with Cons.prems p have "remove_expired listed ms (c, w) = (c', w')" by simp
    from Cons.IH [OF this] show ?thesis using p True by auto
  next
    case False
    let ?w1 = "emit (EvCancel (cancelFn m)) (emit (EvLog ''Stopping service controller for cluster'') w)"
    have "remove_expired listed ms (c\<lparr>clusters := AList.delete y (clusters c)\<rparr>, ?w1) = (c', w')"
      using Cons.prems p False by simp
    from Cons.IH [OF this] show ?thesis
      using p False by (auto simp: delete_conv')
  qed
qed

lemma add_cluster_keeps:
  assumes "map_of (clusters c) x = Some m" "add_cluster e y (c, w) = (c', w')"
  shows "map_of (clusters c') x = Some m"
proof (cases "y = x")
  case True
  with assms show ?thesis by (simp add: add_cluster_def)
next
  case False
  with assms show ?thesis
    by (auto simp: add_cluster_def update_conv' split: option.splits prod.splits sum.splits)
qed

lemma add_cluster_canceled:
  assumes "add_cluster e y (c, w) = (c', w')"
  shows "\<exists>ts. canceled (trace w') = canceled (trace w) @ ts \<and>
              (\<forall>t\<in>set ts. next_ctx w \<le> t) \<and> next_ctx w \<le> next_ctx w'"
proof (cases "map_of (clusters c) y")
  case (Some m)
  with assms show ?thesis by (simp add: add_cluster_def)
next
  case None
  obtain r w1 where g: "getKubeClient e y w = (r, w1)" by (cases "getKubeClient e y w")
  have l1: "same_life w w1" using getKubeClient_quiet [OF g] by (rule quiet_boot_same_life)
  show ?thesis
  proof (cases r)
    case (Inl err)
    with assms None g have "w' = emit (EvLog ''Failed to create kubeClient for cluster'') w1"
      by (simp add: add_cluster_def)
    then have "same_life w w'" using l1 same_life_emit_log by (auto intro: same_life_trans)
    then show ?thesis by (simp add: same_life_def)
  next
    case (Inr kc)
    let ?w2 = "emit (EvProviderNew y) w1"
    have l2: "same_life w ?w2" using l1 same_life_emit_provider by (rule same_life_trans)
    obtain q w3 where s: "startCloudControllerManager e y kc (Cloud y) ?w2 = (q, w3)"
      by (cases "startCloudControllerManager e y kc (Cloud y) ?w2")
    have "\<exists>l. w' = emit (EvLog l) w3"
      using assms None g Inr s by (cases q) (auto simp: add_cluster_def)
    then have l3: "same_life w3 w'" using same_life_emit_log by auto
    from startCCM_life [OF s] l2 l3 show ?thesis
      by (auto simp: same_life_def)
  qed
qed

lemma add_new_canceled:
  "add_new e ys (c, w) = (b, c', w') \<Longrightarrow>
     \<exists>ts. canceled (trace w') = canceled (trace w) @ ts \<and>
          (\<forall>t\<in>set ts. next_ctx w \<le> t) \<and> next_ctx w \<le> next_ctx w'"
proof (induction ys arbitrary: c w)
  case Nil
  then show ?case by simp
next
  case (Cons y ys)
  show ?case
  proof (cases "ctx_Done e w")
    case True
    with Cons.prems show ?thesis by simp
  next
    case False
    obtain c1 w1 where a: "add_cluster e y (c, w) = (c1, w1)" by (cases "add_cluster e y (c, w)")
    from add_cluster_canceled [OF a] obtain ts where ts:
      "canceled (trace w1) = canceled (trace w) @ ts" "\<forall>t\<in>set ts. next_ctx w \<le> t"
      "next_ctx w \<le> next_ctx w1" by blast
    have "add_new e ys (c1, w1) = (b, c', w')" using Cons.prems False a by simp
    from Cons.IH [OF this] obtain us where us:
      "canceled (trace w') = canceled (trace w1) @ us" "\<forall>t\<in>set us. next_ctx w1 \<le> t"
      "next_ctx w1 \<le> next_ctx w'" by blast
    have "canceled (trace w') = canceled (trace w) @ (ts @ us)" using ts(1) us(1) by simp
    moreover have "\<forall>t\<in>set (ts @ us). next_ctx w \<le> t" using ts(2,3) us(2) by auto
    moreover have "next_ctx w \<le> next_ctx w'" using ts(3) us(3) by simp
    ultimately show ?thesis by blast
  qed
qed

lemma add_new_keeps:
  "map_of (clusters c) x = Some m \<Longrightarrow> add_new e ys (c, w) = (b, c', w') \<Longrightarrow>
     map_of (clusters c') x = Some m"
proof (induction ys arbitrary: c w)
  case Nil
  then show ?case by simp
next
  case (Cons y ys)
  show ?case
  proof (cases "ctx_Done e w")
    case True
    with Cons.prems show ?thesis by simp
  next
    case False
    obtain c1 w1 where a: "add_cluster e y (c, w) = (c1, w1)" by (cases "add_cluster e y (c, w)")
    have "map_of (clusters c1) x = Some m" using Cons.prems(1) a by (rule add_cluster_keeps)
    moreover have "add_new e ys (c1, w1) = (b, c', w')" using Cons.prems(2) False a by simp
    ultimately show ?thesis by (rule Cons.IH)
  qed
qed

lemma count_list_distinct: "distinct xs \<Longrightarrow> x \<in> set xs \<Longrightarrow> count_list xs x = 1"
  by (induction xs) (auto simp: count_list_0_iff)

lemma lifecycle_inv_tokens:
  assumes "lifecycle_inv (c, w)"
  shows "distinct (map (\<lambda>p. cancelFn (snd p)) (clusters c))"
proof -
  have dk: "distinct (map fst (clusters c))"
    and hr: "set (handles c) = set (running (trace w))"
    and dt: "distinct (map snd (launched (trace w)))"
    using assms by (simp_all add: lifecycle_inv_def)
  have dh: "distinct (handles c)"
    using dk by (metis (no_types, lifting) distinct_map handles_def inj_on_def prod.collapse fst_conv
        distinct_fst_inj)
  have "inj_on snd (set (handles c))"
  proof (rule inj_onI)
    fix p q
    assume "p \<in> set (handles c)" "q \<in> set (handles c)" "snd p = snd q"
    then show "p = q"
      using hr running_subset dt distinct_snd_inj [of "launched (trace w)" p q] by blast
  qed
  with dh have "distinct (map snd (handles c))" by (simp add: distinct_map)
  then show ?thesis by (simp add: handles_def comp_def)
qed

lemma cycle_removes:
  assumes inv: "lifecycle_inv (c, w)" and cy: "cycle e (c, w) = (False, c', w')"
    and look: "map_of (clusters c) x = Some m" and nl: "x \<notin> set (fst (kind_List e (step w)))"
  shows "map_of (clusters c') x = None \<and> count_list (canceled (trace w')) (cancelFn m) = 1"
proof -
  let ?t = "cancelFn m"
  let ?listed = "fst (kind_List e (step w))"
  let ?w2 = "case snd (kind_List e (step w)) of
               Some err \<Rightarrow> emit (EvLog ''error listing clusters, retrying ...'') (call e EvList w)
             | None \<Rightarrow> call e EvList w"
  have nd: "\<not> ctx_Done e w" using cy by (auto simp: cycle_def)
  have mem: "(x, m) \<in> set (clusters c)" using look by (rule map_of_SomeD)
  have "(x, ?t) \<in> set (running (trace w))"
    using inv handles_mem [OF mem] by (simp add: lifecycle_inv_def)
  then have nc: "?t \<notin> set (canceled (trace w))" and "(x, ?t) \<in> set (launched (trace w))"
    by (auto simp: running_def)
  then have tb: "?t < next_ctx w" using lifecycle_inv_bounds(1) [OF inv] by auto
  have l2: "same_life w ?w2" by (rule same_life_list)
  have i2: "lifecycle_inv (c, ?w2)" using inv l2 by (rule lifecycle_inv_same_life)
  obtain b3 c3 w3 where a: "add_new e ?listed (c, ?w2) = (b3, c3, w3)"
    by (cases "add_new e ?listed (c, ?w2)")
  have b3: "\<not> b3" using cy nd a by (auto simp: cycle_def Let_def split: if_splits)
  obtain c4 w4 where r: "remove_expired ?listed (clusters c3) (c3, w3) = (c4, w4)"
    by (cases "remove_expired ?listed (clusters c3) (c3, w3)")
  have cw: "c' = c4" "w' = time_Sleep 30 w4"
    using cy nd a b3 r by (simp_all add: cycle_def Let_def)
  have i3: "lifecycle_inv (c3, w3)" using i2 a by (rule add_new_inv)
  have look3: "map_of (clusters c3) x = Some m" using look a by (rule add_new_keeps)
  then have mem3: "(x, m) \<in> set (clusters c3)" by (rule map_of_SomeD)
  from add_new_canceled [OF a] obtain ts where ts:
    "canceled (trace w3) = canceled (trace ?w2) @ ts" "\<forall>t\<in>set ts. next_ctx ?w2 \<le> t" by blast
  have "?t \<notin> set ts" using ts(2) tb l2 by (auto simp: same_life_def)
  then have nc3: "count_list (canceled (trace w3)) ?t = 0"
    using ts(1) nc l2 by (simp add: same_life_def count_list_0_iff)
  let ?gone = "map (\<lambda>p. cancelFn (snd p)) (filter (\<lambda>p. fst p \<notin> set ?listed) (clusters c3))"
  have "distinct ?gone"
    using lifecycle_inv_tokens [OF i3] by (rule distinct_map_filter)
  moreover have "?t \<in> set ?gone" using mem3 nl by force
  ultimately have "count_list ?gone ?t = 1" by (rule count_list_distinct)
  then have "count_list (canceled (trace w4)) ?t = 1"
    using remove_expired_canceled [OF r] nc3 by simp
  then have "count_list (canceled (trace w')) ?t = 1"
    unfolding cw by (simp add: time_Sleep_def canceled_append)
  moreover have "x \<in> fst ` set (clusters c3)" using mem3 by force
  then have "map_of (clusters c') x = None"
    using remove_expired_lookup [OF r, of x] nl cw by simp
  ultimately show ?thesis by simp
qed

subsection \<open>Unfolding the model on concrete environments\<close>

lemmas run_simps =
  probeHTTP_def Let_def emit_def call_def time_Sleep_def ctx_Done_def env0_def world0_def upt_0_5
  try_variant_def getKubeClient_def env_unreachable_def

section \<open>Claims\<close>

text \<open>
  C1. The claim says that a pass whose listing fails leaves the set of managed clusters
  as it is. The code logs the failure and goes on with the slice it got: with a nil slice
  the loop "remove expired ones" finds no cluster listed, calls the cancel function of
  every managed instance and deletes every key. Here the first pass lists and launches
  the cluster \<open>a\<close>; the listing of the second pass (the call number 6) fails; after that
  pass the map is empty and the cancel function of \<open>a\<close> has been called.
\<close>

theorem C1_listing_failure_cancels_all:
  "kind_List env_list_fails 6 = ([], Some (ErrExternal ''failed to list clusters'')) \<and>
   (case cycle env_list_fails (New, world0) of
      (b1, c1, w1) \<Rightarrow>
        \<not> b1 \<and> map fst (clusters c1) = [''a''] \<and> map (cancelFn \<circ> snd) (clusters c1) = [0] \<and>
        step w1 = 6 \<and> launched (trace w1) = [(''a'', 0)] \<and> canceled (trace w1) = [] \<and>
        (case cycle env_list_fails (c1, w1) of
           (b2, c2, w2) \<Rightarrow>
             \<not> b2 \<and> clusters c2 = [] \<and> canceled (trace w2) = [0] \<and>
             trace w2 = trace w1 @
               [EvList, EvLog ''error listing clusters, retrying ...'',
                EvLog ''Stopping service controller for cluster'', EvCancel 0, EvSleep 30]))"
  by (simp add: env_list_fails_def cycle_def New_def add_cluster_def
        startCloudControllerManager_def PollImmediateWithContext_def healthz_cond_def ctx_request_def run_simps)

text \<open>
  C2 (as amended). The map of managed clusters keeps its lifecycle invariant across every
  pass of the loop, whether the pass is completed or cut short by the signal: it holds
  for the controller that New returns, and every pass preserves it. Under the invariant
  the keys of the map are the clusters with an instance that was launched and whose
  cancel function has not been called. A cluster that is a key when a pass begins is
  neither bootstrapped nor launched in that pass. When a pass is completed (it is not
  cut short by the process-level signal), its listing succeeded and a key is absent from
  the listed clusters, then after the pass the key is gone and the cancel function of
  its instance has been called exactly once.
\<close>

theorem C2_lifecycle_invariant:
  "lifecycle_inv (New, world0) \<and>
   (lifecycle_inv (c, w) \<and> cycle e (c, w) = (b, c', w') \<longrightarrow> lifecycle_inv (c', w')) \<and>
   (lifecycle_inv (c, w) \<longrightarrow> fst ` set (clusters c) = fst ` set (running (trace w))) \<and>
   (x \<in> fst ` set (clusters c) \<and> cycle e (c, w) = (b, c', w') \<longrightarrow>
      attempts x (trace w') = attempts x (trace w)) \<and>
   (lifecycle_inv (c, w) \<and> cycle e (c, w) = (False, c', w') \<and>
    snd (kind_List e (step w)) = None \<and> map_of (clusters c) x = Some m \<and>
    x \<notin> set (fst (kind_List e (step w))) \<longrightarrow>
      map_of (clusters c') x = None \<and> count_list (canceled (trace w')) (cancelFn m) = 1)"
proof (intro conjI impI)
  show "lifecycle_inv (New, world0)" by (rule lifecycle_inv_init)
next
  assume "lifecycle_inv (c, w) \<and> cycle e (c, w) = (b, c', w')"
  then show "lifecycle_inv (c', w')" by (elim conjE) (rule cycle_inv)
next
  assume "lifecycle_inv (c, w)"
  then show "fst ` set (clusters c) = fst ` set (running (trace w))" by (rule lifecycle_inv_keys)
next
  assume "x \<in> fst ` set (clusters c) \<and> cycle e (c, w) = (b, c', w')"
  then show "attempts x (trace w') = attempts x (trace w)" by (elim conjE) (rule cycle_attempts)
next
  assume a: "lifecycle_inv (c, w) \<and> cycle e (c, w) = (False, c', w') \<and>
    snd (kind_List e (step w)) = None \<and> map_of (clusters c) x = Some m \<and>
    x \<notin> set (fst (kind_List e (step w)))"
  then have "map_of (clusters c') x = None \<and> count_list (canceled (trace w')) (cancelFn m) = 1"
    by (elim conjE) (rule cycle_removes)
  then show "map_of (clusters c') x = None" and "count_list (canceled (trace w')) (cancelFn m) = 1"
    by simp_all
qed


theorem C2_lifecycle_invariant_witness:
  "(lifecycle_inv (New, world0) \<and> cycle env_abc (New, world0) = (fst pass1, fst (snd pass1), snd (snd pass1))) \<and>
   (lifecycle_inv (fst (snd pass1), snd (snd pass1))) \<and>
   (fst ` set (clusters (fst (snd pass1))) = fst ` set (running (trace (snd (snd pass1))))) \<and>
   (map fst (clusters (fst (snd pass1))) = [''a'', ''b'']) \<and>
   (''b'' \<in> fst ` set (clusters (fst (snd pass1)))) \<and>
   (cycle env_abc (fst (snd pass1), snd (snd pass1)) = (fst pass2, fst (snd pass2), snd (snd pass2))) \<and>
   (attempts ''b'' (trace (snd (snd pass2))) = attempts ''b'' (trace (snd (snd pass1)))) \<and>
   (fst pass2 = False) \<and>
   (snd (kind_List env_abc (step (snd (snd pass1)))) = None) \<and>
   (map_of (clusters (fst (snd pass1))) ''a'' = Some \<lparr>factory = InformerFactory (KubeClient (RestConfig ''a'')), serviceController = ServiceController (Cloud ''a'') (KubeClient (RestConfig ''a'')) ''a'', nodeController = NodeController (KubeClient (RestConfig ''a'')) (Cloud ''a''), cancelFn = 0\<rparr>) \<and>
   (''a'' \<notin> set (fst (kind_List env_abc (step (snd (snd pass1)))))) \<and>
   (map fst (clusters (fst (snd pass2))) = [''b'', ''c''] \<and> launched (trace (snd (snd pass2))) = [(''a'', 0), (''b'', 1), (''c'', 2)] \<and> canceled (trace (snd (snd pass2))) = [0]) \<and>
   (map_of (clusters (fst (snd pass2))) ''a'' = None \<and> count_list (canceled (trace (snd (snd pass2)))) (cancelFn \<lparr>factory = InformerFactory (KubeClient (RestConfig ''a'')), serviceController = ServiceController (Cloud ''a'') (KubeClient (RestConfig ''a'')) ''a'', nodeController = NodeController (KubeClient (RestConfig ''a'')) (Cloud ''a''), cancelFn = 0\<rparr>) = 1)"
proof -
  have h1_0: "lifecycle_inv (New, world0) \<and> cycle env_abc (New, world0) = (fst pass1, fst (snd pass1), snd (snd pass1))"
    by (simp add: pass1_def lifecycle_inv_init)
  note t1 = C2_lifecycle_invariant [where e = env_abc and c = New and w = world0 and b = "fst pass1" and c' = "fst (snd pass1)" and w' = "snd (snd pass1)"]
  from t1 h1_0 have c1_0: "lifecycle_inv (fst (snd pass1), snd (snd pass1))"
    by blast
  note t2 = C2_lifecycle_invariant [where c = "fst (snd pass1)" and w = "snd (snd pass1)"]
  from t2 c1_0 have c2_0: "fst ` set (clusters (fst (snd pass1))) = fst ` set (running (trace (snd (snd pass1))))"
    by blast
  have h3_0: "map fst (clusters (fst (snd pass1))) = [''a'', ''b'']"
    by (simp add: pass1_def pass2_def env_abc_def cycle_def launch_simps run_simps)
  have h3_1: "''b'' \<in> fst ` set (clusters (fst (snd pass1)))"
    by (simp add: pass1_def pass2_def env_abc_def cycle_def launch_simps run_simps)
  have h3_2: "cycle env_abc (fst (snd pass1), snd (snd pass1)) = (fst pass2, fst (snd pass2), snd (snd pass2))"
    by (simp add: pass1_def pass2_def)
  note t3 = C2_lifecycle_invariant [where e = env_abc and c = "fst (snd pass1)" and w = "snd (snd pass1)" and x = "''b''" and b = "fst pass2" and c' = "fst (snd pass2)" and w' = "snd (snd pass2)"]
  from t3 h3_0 h3_1 h3_2 have c3_0: "attempts ''b'' (trace (snd (snd pass2))) = attempts ''b'' (trace (snd (snd pass1)))"
    by blast
  have h4_0: "fst pass2 = False"
    by (simp add: pass1_def pass2_def env_abc_def cycle_def launch_simps run_simps)
  have h4_1: "snd (kind_List env_abc (step (snd (snd pass1)))) = None"
    by (simp add: pass1_def pass2_def env_abc_def cycle_def launch_simps run_simps)
  have h4_2: "map_of (clusters (fst (snd pass1))) ''a'' = Some \<lparr>factory = InformerFactory (KubeClient (RestConfig ''a'')), serviceController = ServiceController (Cloud ''a'') (KubeClient (RestConfig ''a'')) ''a'', nodeController = NodeController (KubeClient (RestConfig ''a'')) (Cloud ''a''), cancelFn = 0\<rparr>"
    by (simp add: pass1_def pass2_def env_abc_def cycle_def launch_simps run_simps)
  have h4_3: "''a'' \<notin> set (fst (kind_List env_abc (step (snd (snd pass1)))))"
    by (simp add: pass1_def pass2_def env_abc_def cycle_def launch_simps run_simps)
  have h4_4: "map fst (clusters (fst (snd pass2))) = [''b'', ''c''] \<and> launched (trace (snd (snd pass2))) = [(''a'', 0), (''b'', 1), (''c'', 2)] \<and> canceled (trace (snd (snd pass2))) = [0]"
    by (simp add: pass1_def pass2_def env_abc_def cycle_def launch_simps run_simps)
  note t4 = C2_lifecycle_invariant [where e = env_abc and c = "fst (snd pass1)" and w = "snd (snd pass1)" and x = "''a''" and c' = "fst (snd pass2)" and w' = "snd (snd pass2)" and m = "\<lparr>factory = InformerFactory (KubeClient (RestConfig ''a'')), serviceController = ServiceController (Cloud ''a'') (KubeClient (RestConfig ''a'')) ''a'', nodeController = NodeController (KubeClient (RestConfig ''a'')) (Cloud ''a''), cancelFn = 0\<rparr>"]
  from t4 c1_0 h3_2 h4_0 h4_1 h4_2 h4_3 have c4_0: "map_of (clusters (fst (snd pass2))) ''a'' = None \<and> count_list (canceled (trace (snd (snd pass2)))) (cancelFn \<lparr>factory = InformerFactory (KubeClient (RestConfig ''a'')), serviceController = ServiceController (Cloud ''a'') (KubeClient (RestConfig ''a'')) ''a'', nodeController = NodeController (KubeClient (RestConfig ''a'')) (Cloud ''a''), cancelFn = 0\<rparr>) = 1"
    by simp
  show ?thesis
    using h1_0 c1_0 c2_0 h3_0 h3_1 h3_2 c3_0 h4_0 h4_1 h4_2 h4_3 h4_4 c4_0 by blast
qed

text \<open>
  The claim as stated fails on a pass that the signal cuts short: the first pass lists
  and launches \<open>a\<close>; the second listing succeeds with \<open>b\<close> alone, and the signal fires
  while it is in progress. The per-cluster check returns from Run before the loop
  "remove expired ones" is reached: \<open>a\<close> is absent from a successful listing, yet it is
  still a key after the pass and no cancel function has been called.
\<close>

theorem C2_counterexample:
  "lifecycle_inv (snd (cycle env_shutdown_in_pass (New, world0))) \<and>
   map fst (clusters (fst (snd (cycle env_shutdown_in_pass (New, world0))))) = [''a''] \<and>
   kind_List env_shutdown_in_pass (step (snd (snd (cycle env_shutdown_in_pass (New, world0)))))
     = ([''b''], None) \<and>
   ''a'' \<notin> set [''b''] \<and>
   fst (cycle env_shutdown_in_pass (snd (cycle env_shutdown_in_pass (New, world0)))) = True \<and>
   map fst (clusters (fst (snd (cycle env_shutdown_in_pass
                                  (snd (cycle env_shutdown_in_pass (New, world0))))))) = [''a''] \<and>
   canceled (trace (snd (snd (cycle env_shutdown_in_pass
                                  (snd (cycle env_shutdown_in_pass (New, world0))))))) = []"
  by (simp add: env_shutdown_in_pass_def cycle_def lifecycle_inv_def handles_def running_def
        launch_simps run_simps)

text \<open>
  C3 (as amended). The readiness poll of a launch observes the cancellation signal and
  returns promptly when it fires: with a signal at instant \<open>t\<close> the poll returns no later
  than \<open>t\<close> (at once when it begins after \<open>t\<close>), and with the timeout error unless it
  returned before \<open>t\<close>. The fixed inter-cycle sleep and the backoff delays between probe
  attempts do not observe the signal: they are plain \<open>time.Sleep\<close> calls, and each runs
  for its whole nominal duration, also when the signal fires meanwhile. So a completed
  pass of the loop ends with a sleep that took its 30 seconds, and a probing loop takes at
  least the sum of the delays it began, which are all its delays when every attempt
  failed. The signal is seen by the checks at loop entry (Run then returns through the
  cleanup), at each per-cluster iteration and before each probe attempt: a check that
  finds the signal fired returns at once.
\<close>

theorem C3_waits_and_checks:
  "now (time_Sleep d w) = now w + d \<and>
   (cycle e (c, w) = (False, c', w') \<longrightarrow>
      (\<exists>u. w' = time_Sleep 30 u \<and> now w \<le> now u) \<and> now w + 30 \<le> now w') \<and>
   (probe_loop e host ds w = (r, w') \<longrightarrow>
      now w + sum_list (sleeps (new_events w w')) \<le> now w' \<and>
      (r = Inr False \<longrightarrow> sleeps (new_events w w') = ds)) \<and>
   (ctx_Done e w \<longrightarrow> Run e (Suc n) (c, w) = Some (c, cleanup e w)) \<and>
   (ctx_Done e w \<longrightarrow> add_new e (x # xs) (c, w) = (True, c, w)) \<and>
   (ctx_Done e w \<longrightarrow> probe_loop e host (i # ds) w = (Inl ErrCanceled, w)) \<and>
   (cancel_at e = Some t \<and> PollImmediateWithContext e 1 30 (healthz_cond e k) w = (p, w1) \<longrightarrow>
      now w1 \<le> max (now w) t \<and> (t \<le> now w1 \<longrightarrow> p = Some ErrWaitTimeout))"
proof (intro conjI impI)
  show "now (time_Sleep d w) = now w + d" by (simp add: time_Sleep_def)
next
  assume "cycle e (c, w) = (False, c', w')"
  then show "\<exists>u. w' = time_Sleep 30 u \<and> now w \<le> now u" by (rule cycle_completed_sleep)
next
  assume "cycle e (c, w) = (False, c', w')"
  then show "now w + 30 \<le> now w'" by (rule cycle_completed_sleeps)
next
  assume a: "probe_loop e host ds w = (r, w')"
  from probe_loop_sleeps [OF a]
  show "now w + sum_list (sleeps (new_events w w')) \<le> now w'" by blast
next
  assume a: "probe_loop e host ds w = (r, w')" and "r = Inr False"
  with probe_loop_sleeps [OF a] show "sleeps (new_events w w') = ds" by blast
next
  assume "ctx_Done e w"
  then show "Run e (Suc n) (c, w) = Some (c, cleanup e w)" by (simp add: cycle_def)
next
  assume "ctx_Done e w"
  then show "add_new e (x # xs) (c, w) = (True, c, w)" by simp
next
  assume "ctx_Done e w"
  then show "probe_loop e host (i # ds) w = (Inl ErrCanceled, w)" by simp
next
  assume a: "cancel_at e = Some t \<and> PollImmediateWithContext e 1 30 (healthz_cond e k) w = (p, w1)"
  then have s: "now w1 \<le> max (now w) t \<and> (t \<le> now w1 \<longrightarrow> p = Some ErrWaitTimeout)"
    by (elim conjE) (rule healthz_poll_signal)
  from s show "now w1 \<le> max (now w) t" by blast
  assume "t \<le> now w1"
  with s show "p = Some ErrWaitTimeout" by blast
qed

theorem C3_waits_and_checks_witness:
  "(cycle (env0\<lparr>cancel_at := Some 1\<rparr>) (New, world0)
     = (False, New, \<lparr>now = 30, step = 1, next_ctx = 0, trace = [EvList, EvSleep 30]\<rparr>)) \<and>
   (ctx_Done (env0\<lparr>cancel_at := Some 1\<rparr>)
      \<lparr>now = 30, step = 1, next_ctx = 0, trace = [EvList, EvSleep 30]\<rparr>) \<and>
   (\<exists>u. \<lparr>now = 30, step = 1, next_ctx = 0, trace = [EvList, EvSleep 30]\<rparr> = time_Sleep 30 u \<and>
        now world0 \<le> now u) \<and>
   (now world0 + 30 \<le> now \<lparr>now = 30, step = 1, next_ctx = 0, trace = [EvList, EvSleep 30]\<rparr>) \<and>
   (probe_loop (env_unreachable\<lparr>cancel_at := Some 4\<rparr>) ''h'' [2, 3] world0
     = (Inr False, snd (probe_loop (env_unreachable\<lparr>cancel_at := Some 4\<rparr>) ''h'' [2, 3] world0))) \<and>
   (ctx_Done (env_unreachable\<lparr>cancel_at := Some 4\<rparr>)
      (snd (probe_loop (env_unreachable\<lparr>cancel_at := Some 4\<rparr>) ''h'' [2, 3] world0))) \<and>
   (now world0 + sum_list (sleeps (new_events world0
        (snd (probe_loop (env_unreachable\<lparr>cancel_at := Some 4\<rparr>) ''h'' [2, 3] world0))))
      \<le> now (snd (probe_loop (env_unreachable\<lparr>cancel_at := Some 4\<rparr>) ''h'' [2, 3] world0))) \<and>
   (sleeps (new_events world0
        (snd (probe_loop (env_unreachable\<lparr>cancel_at := Some 4\<rparr>) ''h'' [2, 3] world0))) = [2, 3]) \<and>
   (ctx_Done (env0\<lparr>cancel_at := Some 0\<rparr>) world0) \<and>
   (Run (env0\<lparr>cancel_at := Some 0\<rparr>) (Suc 0) (New, world0)
     = Some (New, cleanup (env0\<lparr>cancel_at := Some 0\<rparr>) world0)) \<and>
   (add_new (env0\<lparr>cancel_at := Some 0\<rparr>) [''a'', ''b''] (New, world0) = (True, New, world0)) \<and>
   (probe_loop (env0\<lparr>cancel_at := Some 0\<rparr>) ''h'' [0, 1] world0 = (Inl ErrCanceled, world0)) \<and>
   (cancel_at (env0\<lparr>cancel_at := Some 5, healthz_Get := (\<lambda>n k. Some 503)\<rparr>) = Some 5 \<and>
    PollImmediateWithContext (env0\<lparr>cancel_at := Some 5, healthz_Get := (\<lambda>n k. Some 503)\<rparr>) 1 30
        (healthz_cond (env0\<lparr>cancel_at := Some 5, healthz_Get := (\<lambda>n k. Some 503)\<rparr>)
           (KubeClient (RestConfig ''a''))) world0
      = (fst (PollImmediateWithContext (env0\<lparr>cancel_at := Some 5, healthz_Get := (\<lambda>n k. Some 503)\<rparr>) 1 30
               (healthz_cond (env0\<lparr>cancel_at := Some 5, healthz_Get := (\<lambda>n k. Some 503)\<rparr>)
                  (KubeClient (RestConfig ''a''))) world0),
         snd (PollImmediateWithContext (env0\<lparr>cancel_at := Some 5, healthz_Get := (\<lambda>n k. Some 503)\<rparr>) 1 30
               (healthz_cond (env0\<lparr>cancel_at := Some 5, healthz_Get := (\<lambda>n k. Some 503)\<rparr>)
                  (KubeClient (RestConfig ''a''))) world0)) \<and>
    5 \<le> now (snd (PollImmediateWithContext (env0\<lparr>cancel_at := Some 5, healthz_Get := (\<lambda>n k. Some 503)\<rparr>) 1 30
               (healthz_cond (env0\<lparr>cancel_at := Some 5, healthz_Get := (\<lambda>n k. Some 503)\<rparr>)
                  (KubeClient (RestConfig ''a''))) world0))) \<and>
   (now (snd (PollImmediateWithContext (env0\<lparr>cancel_at := Some 5, healthz_Get := (\<lambda>n k. Some 503)\<rparr>) 1 30
               (healthz_cond (env0\<lparr>cancel_at := Some 5, healthz_Get := (\<lambda>n k. Some 503)\<rparr>)
                  (KubeClient (RestConfig ''a''))) world0))
      \<le> max (now world0) 5) \<and>
   (fst (PollImmediateWithContext (env0\<lparr>cancel_at := Some 5, healthz_Get := (\<lambda>n k. Some 503)\<rparr>) 1 30
               (healthz_cond (env0\<lparr>cancel_at := Some 5, healthz_Get := (\<lambda>n k. Some 503)\<rparr>)
                  (KubeClient (RestConfig ''a''))) world0)
      = Some ErrWaitTimeout)"
proof -
  let ?w1 = "\<lparr>now = 30, step = 1, next_ctx = 0, trace = [EvList, EvSleep 30]\<rparr>"
  let ?e0 = "env0\<lparr>cancel_at := Some 0\<rparr>"
  let ?e1 = "env0\<lparr>cancel_at := Some 1\<rparr>"
  let ?e4 = "env_unreachable\<lparr>cancel_at := Some 4\<rparr>"
  let ?e5 = "env0\<lparr>cancel_at := Some 5, healthz_Get := (\<lambda>n k. Some 503)\<rparr>"
  let ?pl = "probe_loop ?e4 ''h'' [2, 3] world0"
  let ?po = "PollImmediateWithContext ?e5 1 30 (healthz_cond ?e5 (KubeClient (RestConfig ''a''))) world0"
  have h1: "cycle ?e1 (New, world0) = (False, New, ?w1)"
    by (simp add: cycle_def New_def run_simps)
  have h1': "ctx_Done ?e1 ?w1"
    by (simp add: run_simps)
  have h2: "?pl = (Inr False, snd ?pl)"
    by (simp add: run_simps)
  have h2': "ctx_Done ?e4 (snd ?pl)"
    by (simp add: run_simps)
  have h3: "ctx_Done ?e0 world0"
    by (simp add: run_simps)
  have h4: "cancel_at ?e5 = Some 5 \<and> ?po = (fst ?po, snd ?po) \<and> 5 \<le> now (snd ?po)"
    by code_simp
  note t1 = C3_waits_and_checks [where e = ?e1 and c = New and w = world0 and c' = New
              and w' = ?w1]
  note t2 = C3_waits_and_checks [where e = ?e4 and host = "''h''" and ds = "[2, 3]"
              and w = world0 and r = "Inr False" and w' = "snd ?pl"]
  note t3 = C3_waits_and_checks [where e = ?e0 and w = world0 and c = New and n = 0
              and x = "''a''" and xs = "[''b'']" and host = "''h''" and i = 0 and ds = "[1]"]
  note t4 = C3_waits_and_checks [where e = ?e5 and w = world0 and t = 5
              and k = "KubeClient (RestConfig ''a'')" and p = "fst ?po" and ?w1.0 = "snd ?po"]
  from t1 h1 have c1: "\<exists>u. ?w1 = time_Sleep 30 u \<and> now world0 \<le> now u"
    by blast
  from t1 h1 have c1': "now world0 + 30 \<le> now ?w1" by blast
  from t2 h2 have c2:
    "now world0 + sum_list (sleeps (new_events world0 (snd ?pl))) \<le> now (snd ?pl)"
    by blast
  from t2 h2 have c2': "sleeps (new_events world0 (snd ?pl)) = [2, 3]"
    by blast
  from t3 h3 have c3:
    "Run ?e0 (Suc 0) (New, world0) = Some (New, cleanup ?e0 world0)"
    "add_new ?e0 [''a'', ''b''] (New, world0) = (True, New, world0)"
    "probe_loop ?e0 ''h'' [0, 1] world0 = (Inl ErrCanceled, world0)"
    by blast+
  from t4 h4 have c4: "now (snd ?po) \<le> max (now world0) 5" by blast
  from t4 h4 have c4': "fst ?po = Some ErrWaitTimeout" by blast
  show ?thesis using h1 h1' c1 c1' h2 h2' c2 c2' h3 c3 h4 c4 c4' by blast
qed

text \<open>
  The claim as stated fails. The signal fires at second 1, during the first inter-cycle
  sleep: Run has not returned after its first pass; it returns in the second pass, at
  second 30, when the sleep has run to its end. And with every probe failing and the
  signal at second 2, during the backoff delay that runs from second 1 to second 3, the
  probing loop returns at second 3.
\<close>

theorem C3_counterexample:
  "cancel_at (env0\<lparr>cancel_at := Some 1\<rparr>) = Some 1 \<and>
   Run (env0\<lparr>cancel_at := Some 1\<rparr>) 1 (New, world0) = None \<and>
   Run (env0\<lparr>cancel_at := Some 1\<rparr>) 2 (New, world0)
     = Some (New, \<lparr>now = 30, step = 2, next_ctx = 0,
                   trace = [EvList, EvSleep 30, EvListByLabel ''label'']\<rparr>) \<and>
   cancel_at (env_unreachable\<lparr>cancel_at := Some 2\<rparr>) = Some 2 \<and>
   fst (probe_loop (env_unreachable\<lparr>cancel_at := Some 2\<rparr>) ''h'' [0..<5] world0)
     = Inl ErrCanceled \<and>
   sleeps (trace (snd (probe_loop (env_unreachable\<lparr>cancel_at := Some 2\<rparr>) ''h'' [0..<5] world0)))
     = [0, 1, 2] \<and>
   now (snd (probe_loop (env_unreachable\<lparr>cancel_at := Some 2\<rparr>) ''h'' [0..<5] world0)) = 3"
  by (simp add: numeral_2_eq_2 cycle_def cleanup_def New_def run_simps)

text \<open>
  C4 (as amended). getKubeClient tries the external endpoint variant before the internal
  one and returns as soon as a variant returns. A variant is passed over (the loop
  continues with the next one) exactly when its kubeconfig cannot be obtained, or cannot
  be parsed, or none of the probes of its host succeeds, or its host passes probing but
  no client can be built from its configuration. A variant yields its client, which is
  returned at once, exactly when its host passes probing and the client can be built. A
  variant ends the bootstrap with an error exactly when its probing is cancelled. When
  both variants are passed over, the result is the error "can not find a working
  kubernetes clientset".
\<close>

theorem C4_getKubeClient:
  "getKubeClient e c w =
     (case try_variant e c False w of
        (Some r, w1) \<Rightarrow> (r, w1)
      | (None, w1) \<Rightarrow>
          (case try_variant e c True w1 of
             (Some r, w2) \<Rightarrow> (r, w2)
           | (None, w2) \<Rightarrow> (Inl ErrNoClientset, w2))) \<and>
   (fst (try_variant e c v w) = None \<longleftrightarrow>
      (case kind_KubeConfig e (step w) c v of
         Inl err \<Rightarrow> True
       | Inr kc \<Rightarrow>
          (case RESTConfigFromKubeConfig e kc of
             Inl err \<Rightarrow> True
           | Inr cfg \<Rightarrow>
              (case fst (probe_loop e (Host cfg) [0..<5] (call e (EvKubeConfig c v) w)) of
                 Inl err \<Rightarrow> False
               | Inr False \<Rightarrow> True
               | Inr True \<Rightarrow> NewForConfig e cfg \<noteq> None)))) \<and>
   (fst (try_variant e c v w) = Some (Inr k) \<longleftrightarrow>
      (\<exists>kc cfg. kind_KubeConfig e (step w) c v = Inr kc \<and>
                RESTConfigFromKubeConfig e kc = Inr cfg \<and>
                fst (probe_loop e (Host cfg) [0..<5] (call e (EvKubeConfig c v) w)) = Inr True \<and>
                NewForConfig e cfg = None \<and> k = KubeClient cfg)) \<and>
   (fst (try_variant e c v w) = Some (Inl err) \<longleftrightarrow>
      (\<exists>kc cfg. kind_KubeConfig e (step w) c v = Inr kc \<and>
                RESTConfigFromKubeConfig e kc = Inr cfg \<and>
                fst (probe_loop e (Host cfg) [0..<5] (call e (EvKubeConfig c v) w)) = Inl err))"
proof (intro conjI)
  show "getKubeClient e c w =
     (case try_variant e c False w of
        (Some r, w1) \<Rightarrow> (r, w1)
      | (None, w1) \<Rightarrow>
          (case try_variant e c True w1 of
             (Some r, w2) \<Rightarrow> (r, w2)
           | (None, w2) \<Rightarrow> (Inl ErrNoClientset, w2)))"
    by (simp add: getKubeClient_def split: prod.splits option.splits)
next
  show "fst (try_variant e c v w) = None \<longleftrightarrow>
      (case kind_KubeConfig e (step w) c v of
         Inl err \<Rightarrow> True
       | Inr kc \<Rightarrow>
          (case RESTConfigFromKubeConfig e kc of
             Inl err \<Rightarrow> True
           | Inr cfg \<Rightarrow>
              (case fst (probe_loop e (Host cfg) [0..<5] (call e (EvKubeConfig c v) w)) of
                 Inl err \<Rightarrow> False
               | Inr False \<Rightarrow> True
               | Inr True \<Rightarrow> NewForConfig e cfg \<noteq> None)))"
    by (auto simp: try_variant_def Let_def
             split: sum.splits prod.splits bool.splits option.splits)
next
  show "fst (try_variant e c v w) = Some (Inr k) \<longleftrightarrow>
      (\<exists>kc cfg. kind_KubeConfig e (step w) c v = Inr kc \<and>
                RESTConfigFromKubeConfig e kc = Inr cfg \<and>
                fst (probe_loop e (Host cfg) [0..<5] (call e (EvKubeConfig c v) w)) = Inr True \<and>
                NewForConfig e cfg = None \<and> k = KubeClient cfg)"
    by (auto simp: try_variant_def Let_def
             split: sum.splits prod.splits bool.splits option.splits)
next
  show "fst (try_variant e c v w) = Some (Inl err) \<longleftrightarrow>
      (\<exists>kc cfg. kind_KubeConfig e (step w) c v = Inr kc \<and>
                RESTConfigFromKubeConfig e kc = Inr cfg \<and>
                fst (probe_loop e (Host cfg) [0..<5] (call e (EvKubeConfig c v) w)) = Inl err)"
    by (auto simp: try_variant_def Let_def
             split: sum.splits prod.splits bool.splits option.splits)
qed

theorem C4_getKubeClient_witness:
  "fst (try_variant env_internal_only ''a'' False world0) = None \<and>
   fst (try_variant env_internal_only ''a'' True
          (snd (try_variant env_internal_only ''a'' False world0)))
     = Some (Inr (KubeClient (RestConfig ''int''))) \<and>
   fst (getKubeClient env_internal_only ''a'' world0) = Inr (KubeClient (RestConfig ''int'')) \<and>
   fst (getKubeClient env_unreachable ''a'' world0) = Inl ErrNoClientset \<and>
   fst (getKubeClient env0 ''a'' world0) = Inr (KubeClient (RestConfig ''a'')) \<and>
   gets (trace (snd (getKubeClient env0 ''a'' world0))) = [''a'']"
proof -
  have e: "fst (try_variant env_internal_only ''a'' False world0) = None"
          "fst (try_variant env_internal_only ''a'' True
                  (snd (try_variant env_internal_only ''a'' False world0)))
             = Some (Inr (KubeClient (RestConfig ''int'')))"
    by (simp_all add: env_internal_only_def run_simps)
  obtain w1 where t1: "try_variant env_internal_only ''a'' False world0 = (None, w1)"
    using e(1) by (cases "try_variant env_internal_only ''a'' False world0") auto
  obtain w2 where t2: "try_variant env_internal_only ''a'' True w1
                         = (Some (Inr (KubeClient (RestConfig ''int''))), w2)"
    using e(2) t1 by (cases "try_variant env_internal_only ''a'' True w1") auto
  have "getKubeClient env_internal_only ''a'' world0 = (Inr (KubeClient (RestConfig ''int'')), w2)"
    using C4_getKubeClient [where e = env_internal_only and c = "''a''" and w = world0, THEN conjunct1]
    by (simp add: t1 t2)
  then have "fst (getKubeClient env_internal_only ''a'' world0) = Inr (KubeClient (RestConfig ''int''))"
    by simp
  moreover have "fst (getKubeClient env_unreachable ''a'' world0) = Inl ErrNoClientset"
    by (simp add: run_simps)
  moreover have "fst (getKubeClient env0 ''a'' world0) = Inr (KubeClient (RestConfig ''a''))"
                "gets (trace (snd (getKubeClient env0 ''a'' world0))) = [''a'']"
    by (simp_all add: run_simps)
  ultimately show ?thesis using e by blast
qed

text \<open>
  The claim as stated fails: the host of the external variant passes probing at the
  first attempt, but \<open>kubernetes.NewForConfig\<close> fails for its configuration; getKubeClient
  goes on to the internal variant and returns the internal client.
\<close>

theorem C4_counterexample:
  "fst (probe_loop env_bad_external ''ext'' [0..<5]
          (call env_bad_external (EvKubeConfig ''a'' False) world0)) = Inr True \<and>
   fst (getKubeClient env_bad_external ''a'' world0) = Inr (KubeClient (RestConfig ''int'')) \<and>
   gets (trace (snd (getKubeClient env_bad_external ''a'' world0))) = [''ext'', ''int'']"
  by (simp add: env_bad_external_def run_simps)

text \<open>
  C5 (as amended). For each endpoint variant the probing loop makes at most 5 probe
  attempts against the configured host; after the failed attempt number \<open>i\<close> (counted
  from 0) it sleeps \<open>i\<close> seconds, so the waits are 0, 1, 2, 3, 4 seconds in this order,
  the last one after the fifth failed attempt, and the loop takes at least the sum of the
  waits it made. The loop checks the signal before each of its five attempts: when such a
  check finds the signal fired the loop makes no probe there and returns the caller's
  cancellation error, and getKubeClient returns that error without trying the variants
  that are left; this happens after at most four waits. A wait in progress is not cut
  short, and there is no check after the fifth wait: when the fifth attempt has failed the
  loop makes its fifth wait and ends without the cancellation error, also when the signal
  fired during that wait, and the bootstrap goes on with the variants that are left.
\<close>

theorem C5_probe_backoff:
  "(probe_loop e host [0..<5] w = (r, w') \<longrightarrow>
      (\<exists>k\<le>5.
          sleeps (trace w') = sleeps (trace w) @ [0..<k] \<and>
          gets (trace w') = gets (trace w) @ replicate (if r = Inr True then Suc k else k) host \<and>
          (if r = Inr True then Suc k else k) \<le> 5 \<and>
          now w + sum_list [0..<k] \<le> now w' \<and>
          (r = Inr False \<longleftrightarrow> k = 5) \<and>
          (\<forall>err. r = Inl err \<longrightarrow> err = ErrCanceled \<and> ctx_Done e w' \<and> k < 5))) \<and>
   (ctx_Done e w \<longrightarrow> probe_loop e host (i # ds) w = (Inl ErrCanceled, w)) \<and>
   (\<not> ctx_Done e w \<and> probeHTTP e host w = (False, w1) \<longrightarrow>
      probe_loop e host (i # ds) w = probe_loop e host ds (time_Sleep i w1) \<and>
      probe_loop e host [i] w = (Inr False, time_Sleep i w1) \<and>
      now (time_Sleep i w1) = now w1 + i) \<and>
   (kind_KubeConfig e (step w) c v = Inr kc \<and> RESTConfigFromKubeConfig e kc = Inr cfg \<and>
    probe_loop e (Host cfg) [0..<5] (call e (EvKubeConfig c v) w) = (Inl err, w2) \<longrightarrow>
      try_variants e c (v # rest) w = (Inl err, w2)) \<and>
   (kind_KubeConfig e (step w) c v = Inr kc \<and> RESTConfigFromKubeConfig e kc = Inr cfg \<and>
    probe_loop e (Host cfg) [0..<5] (call e (EvKubeConfig c v) w) = (Inr False, w2) \<longrightarrow>
      try_variants e c (v # rest) w
        = try_variants e c rest (emit (EvLog ''Failed to connect to apiserver'') w2))"
proof (intro conjI impI)
  assume a: "probe_loop e host [0..<5] w = (r, w')"
  from probe_loop_effect [OF a] obtain k where k:
    "k \<le> length [0..<5]"
    "sleeps (trace w') = sleeps (trace w) @ take k [0..<5]"
    "gets (trace w') = gets (trace w) @ replicate (if r = Inr True then Suc k else k) host"
    "now w + sum_list (take k [0..<5]) \<le> now w'"
    "r = Inr True \<longrightarrow> k < length [0..<5]"
    "r = Inr False \<longrightarrow> k = length [0..<5]"
    "\<forall>err. r = Inl err \<longrightarrow> err = ErrCanceled \<and> ctx_Done e w' \<and> k < length [0..<5]"
    by blast
  have t: "take k [0..<5] = [0..<k]" using k(1) by (simp add: take_upt)
  have f: "k = 5 \<longrightarrow> r = Inr False"
  proof
    assume k5: "k = 5"
    show "r = Inr False"
    proof (cases r)
      case (Inl err)
      with k(7) k5 show ?thesis by simp
    next
      case (Inr b)
      with k(5) k5 show ?thesis by (cases b) simp_all
    qed
  qed
  show "\<exists>k\<le>5.
          sleeps (trace w') = sleeps (trace w) @ [0..<k] \<and>
          gets (trace w') = gets (trace w) @ replicate (if r = Inr True then Suc k else k) host \<and>
          (if r = Inr True then Suc k else k) \<le> 5 \<and>
          now w + sum_list [0..<k] \<le> now w' \<and>
          (r = Inr False \<longleftrightarrow> k = 5) \<and>
          (\<forall>err. r = Inl err \<longrightarrow> err = ErrCanceled \<and> ctx_Done e w' \<and> k < 5)"
    using k f unfolding t by (intro exI [of _ k]) (auto split: if_splits)
next
  assume "ctx_Done e w"
  then show "probe_loop e host (i # ds) w = (Inl ErrCanceled, w)" by simp
next
  assume "\<not> ctx_Done e w \<and> probeHTTP e host w = (False, w1)"
  then show "probe_loop e host (i # ds) w = probe_loop e host ds (time_Sleep i w1)" by simp
next
  assume "\<not> ctx_Done e w \<and> probeHTTP e host w = (False, w1)"
  then show "probe_loop e host [i] w = (Inr False, time_Sleep i w1)" by simp
next
  show "now (time_Sleep i w1) = now w1 + i" by (simp add: time_Sleep_def)
next
  assume "kind_KubeConfig e (step w) c v = Inr kc \<and> RESTConfigFromKubeConfig e kc = Inr cfg \<and>
    probe_loop e (Host cfg) [0..<5] (call e (EvKubeConfig c v) w) = (Inl err, w2)"
  then show "try_variants e c (v # rest) w = (Inl err, w2)"
    by (simp add: try_variant_def Let_def)
next
  assume "kind_KubeConfig e (step w) c v = Inr kc \<and> RESTConfigFromKubeConfig e kc = Inr cfg \<and>
    probe_loop e (Host cfg) [0..<5] (call e (EvKubeConfig c v) w) = (Inr False, w2)"
  then show "try_variants e c (v # rest) w
        = try_variants e c rest (emit (EvLog ''Failed to connect to apiserver'') w2)"
    by (simp add: try_variant_def Let_def)
qed

theorem C5_probe_backoff_witness:
  "(probe_loop (env_unreachable\<lparr>cancel_at := Some 7\<rparr>) ''h'' [0..<5] world0
     = (Inr False, snd (probe_loop (env_unreachable\<lparr>cancel_at := Some 7\<rparr>) ''h'' [0..<5] world0))) \<and>
   (ctx_Done (env_unreachable\<lparr>cancel_at := Some 7\<rparr>)
      (snd (probe_loop (env_unreachable\<lparr>cancel_at := Some 7\<rparr>) ''h'' [0..<5] world0))) \<and>
   (\<exists>k\<le>5.
       sleeps (trace (snd (probe_loop (env_unreachable\<lparr>cancel_at := Some 7\<rparr>) ''h'' [0..<5] world0)))
         = sleeps (trace world0) @ [0..<k] \<and>
       gets (trace (snd (probe_loop (env_unreachable\<lparr>cancel_at := Some 7\<rparr>) ''h'' [0..<5] world0)))
         = gets (trace world0) @ replicate k ''h'' \<and>
       now world0 + sum_list [0..<k]
         \<le> now (snd (probe_loop (env_unreachable\<lparr>cancel_at := Some 7\<rparr>) ''h'' [0..<5] world0)) \<and>
       k = 5) \<and>
   (probe_loop (env_unreachable\<lparr>cancel_at := Some 2\<rparr>) ''h'' [0..<5] world0
     = (Inl ErrCanceled, snd (probe_loop (env_unreachable\<lparr>cancel_at := Some 2\<rparr>) ''h'' [0..<5] world0))) \<and>
   (\<exists>k<5.
       sleeps (trace (snd (probe_loop (env_unreachable\<lparr>cancel_at := Some 2\<rparr>) ''h'' [0..<5] world0)))
         = sleeps (trace world0) @ [0..<k] \<and>
       gets (trace (snd (probe_loop (env_unreachable\<lparr>cancel_at := Some 2\<rparr>) ''h'' [0..<5] world0)))
         = gets (trace world0) @ replicate k ''h'') \<and>
   (ctx_Done (env0\<lparr>cancel_at := Some 0\<rparr>) world0) \<and>
   (probe_loop (env0\<lparr>cancel_at := Some 0\<rparr>) ''h'' [0, 1] world0 = (Inl ErrCanceled, world0)) \<and>
   (\<not> ctx_Done (env_unreachable\<lparr>cancel_at := Some 3\<rparr>) world0 \<and>
    probeHTTP (env_unreachable\<lparr>cancel_at := Some 3\<rparr>) ''h'' world0
      = (False, snd (probeHTTP (env_unreachable\<lparr>cancel_at := Some 3\<rparr>) ''h'' world0))) \<and>
   (ctx_Done (env_unreachable\<lparr>cancel_at := Some 3\<rparr>)
      (time_Sleep 4 (snd (probeHTTP (env_unreachable\<lparr>cancel_at := Some 3\<rparr>) ''h'' world0)))) \<and>
   (probe_loop (env_unreachable\<lparr>cancel_at := Some 3\<rparr>) ''h'' [4] world0
      = (Inr False, time_Sleep 4 (snd (probeHTTP (env_unreachable\<lparr>cancel_at := Some 3\<rparr>) ''h'' world0)))) \<and>
   (now (time_Sleep 4 (snd (probeHTTP (env_unreachable\<lparr>cancel_at := Some 3\<rparr>) ''h'' world0)))
      = now (snd (probeHTTP (env_unreachable\<lparr>cancel_at := Some 3\<rparr>) ''h'' world0)) + 4) \<and>
   (kind_KubeConfig (env_unreachable\<lparr>cancel_at := Some 2\<rparr>) (step world0) ''a'' False = Inr ''a'' \<and>
    RESTConfigFromKubeConfig (env_unreachable\<lparr>cancel_at := Some 2\<rparr>) ''a'' = Inr (RestConfig ''a'') \<and>
    probe_loop (env_unreachable\<lparr>cancel_at := Some 2\<rparr>) (Host (RestConfig ''a'')) [0..<5]
        (call (env_unreachable\<lparr>cancel_at := Some 2\<rparr>) (EvKubeConfig ''a'' False) world0)
     = (Inl ErrCanceled,
        snd (probe_loop (env_unreachable\<lparr>cancel_at := Some 2\<rparr>) ''a'' [0..<5]
              (call (env_unreachable\<lparr>cancel_at := Some 2\<rparr>) (EvKubeConfig ''a'' False) world0)))) \<and>
   (try_variants (env_unreachable\<lparr>cancel_at := Some 2\<rparr>) ''a'' [False, True] world0
     = (Inl ErrCanceled,
        snd (probe_loop (env_unreachable\<lparr>cancel_at := Some 2\<rparr>) ''a'' [0..<5]
              (call (env_unreachable\<lparr>cancel_at := Some 2\<rparr>) (EvKubeConfig ''a'' False) world0)))) \<and>
   (kind_KubeConfig (env_unreachable\<lparr>cancel_at := Some 7\<rparr>) (step world0) ''a'' True = Inr ''a'' \<and>
    RESTConfigFromKubeConfig (env_unreachable\<lparr>cancel_at := Some 7\<rparr>) ''a'' = Inr (RestConfig ''a'') \<and>
    probe_loop (env_unreachable\<lparr>cancel_at := Some 7\<rparr>) (Host (RestConfig ''a'')) [0..<5]
        (call (env_unreachable\<lparr>cancel_at := Some 7\<rparr>) (EvKubeConfig ''a'' True) world0)
     = (Inr False,
        snd (probe_loop (env_unreachable\<lparr>cancel_at := Some 7\<rparr>) ''a'' [0..<5]
              (call (env_unreachable\<lparr>cancel_at := Some 7\<rparr>) (EvKubeConfig ''a'' True) world0)))) \<and>
   (try_variants (env_unreachable\<lparr>cancel_at := Some 7\<rparr>) ''a'' [True] world0
     = try_variants (env_unreachable\<lparr>cancel_at := Some 7\<rparr>) ''a'' []
         (emit (EvLog ''Failed to connect to apiserver'')
            (snd (probe_loop (env_unreachable\<lparr>cancel_at := Some 7\<rparr>) ''a'' [0..<5]
                   (call (env_unreachable\<lparr>cancel_at := Some 7\<rparr>) (EvKubeConfig ''a'' True) world0)))))"
proof -
  let ?e2 = "env_unreachable\<lparr>cancel_at := Some 2\<rparr>"
  let ?e3 = "env_unreachable\<lparr>cancel_at := Some 3\<rparr>"
  let ?e7 = "env_unreachable\<lparr>cancel_at := Some 7\<rparr>"
  let ?l7 = "probe_loop ?e7 ''h'' [0..<5] world0"
  let ?l2 = "probe_loop ?e2 ''h'' [0..<5] world0"
  let ?p2 = "probe_loop ?e2 ''a'' [0..<5] (call ?e2 (EvKubeConfig ''a'' False) world0)"
  let ?p7 = "probe_loop ?e7 ''a'' [0..<5] (call ?e7 (EvKubeConfig ''a'' True) world0)"
  let ?h3 = "probeHTTP ?e3 ''h'' world0"
  have h1: "?l7 = (Inr False, snd ?l7)"
    by (simp add: run_simps)
  have h1': "ctx_Done ?e7 (snd ?l7)"
    by (simp add: run_simps)
  have h2: "?l2 = (Inl ErrCanceled, snd ?l2)"
    by (simp add: run_simps)
  have h3: "ctx_Done (env0\<lparr>cancel_at := Some 0\<rparr>) world0"
    by (simp add: run_simps)
  have h4: "\<not> ctx_Done ?e3 world0 \<and> ?h3 = (False, snd ?h3)"
    by (simp add: run_simps)
  have h4': "ctx_Done ?e3 (time_Sleep 4 (snd ?h3))"
    by (simp add: run_simps)
  have h5: "?p2 = (Inl ErrCanceled, snd ?p2)"
    by (simp add: run_simps)
  have h5': "kind_KubeConfig ?e2 (step world0) ''a'' False = Inr ''a'' \<and>
             RESTConfigFromKubeConfig ?e2 ''a'' = Inr (RestConfig ''a'') \<and>
             probe_loop ?e2 (Host (RestConfig ''a'')) [0..<5] (call ?e2 (EvKubeConfig ''a'' False) world0)
               = (Inl ErrCanceled, snd ?p2)"
    using h5 by (simp add: run_simps)
  have h6: "?p7 = (Inr False, snd ?p7)"
    by (simp add: run_simps)
  have h6': "kind_KubeConfig ?e7 (step world0) ''a'' True = Inr ''a'' \<and>
             RESTConfigFromKubeConfig ?e7 ''a'' = Inr (RestConfig ''a'') \<and>
             probe_loop ?e7 (Host (RestConfig ''a'')) [0..<5] (call ?e7 (EvKubeConfig ''a'' True) world0)
               = (Inr False, snd ?p7)"
    using h6 by (simp add: run_simps)
  note t1 = C5_probe_backoff [where e = ?e7 and host = "''h''" and w = world0
       and r = "Inr False" and w' = "snd ?l7"]
  note t2 = C5_probe_backoff [where e = ?e2 and host = "''h''" and w = world0
       and r = "Inl ErrCanceled" and w' = "snd ?l2"]
  note t3 = C5_probe_backoff [where e = "env0\<lparr>cancel_at := Some 0\<rparr>" and w = world0
       and host = "''h''" and i = 0 and ds = "[1]"]
  note t4 = C5_probe_backoff [where e = ?e3 and w = world0 and host = "''h''" and i = 4
       and ?w1.0 = "snd ?h3"]
  note t5 = C5_probe_backoff [where e = ?e2 and w = world0
       and c = "''a''" and v = False and kc = "''a''" and cfg = "RestConfig ''a''"
       and err = ErrCanceled and rest = "[True]" and ?w2.0 = "snd ?p2"]
  note t6 = C5_probe_backoff [where e = ?e7 and w = world0
       and c = "''a''" and v = True and kc = "''a''" and cfg = "RestConfig ''a''"
       and rest = "[]" and ?w2.0 = "snd ?p7"]
  from t1 h1 have c1: "\<exists>k\<le>5.
       sleeps (trace (snd ?l7)) = sleeps (trace world0) @ [0..<k] \<and>
       gets (trace (snd ?l7)) = gets (trace world0) @ replicate k ''h'' \<and>
       now world0 + sum_list [0..<k] \<le> now (snd ?l7) \<and>
       k = 5"
    by auto
  from t2 h2 obtain k where k:
    "sleeps (trace (snd ?l2)) = sleeps (trace world0) @ [0..<k]"
    "gets (trace (snd ?l2))
       = gets (trace world0) @ replicate (if Inl ErrCanceled = Inr True then Suc k else k) ''h''"
    "\<forall>err. Inl ErrCanceled = Inl err \<longrightarrow>
       err = ErrCanceled \<and> ctx_Done ?e2 (snd ?l2) \<and> k < 5"
    by blast
  from k(3) have "k < 5" by blast
  with k(1,2) have c2: "\<exists>k<5.
       sleeps (trace (snd ?l2)) = sleeps (trace world0) @ [0..<k] \<and>
       gets (trace (snd ?l2)) = gets (trace world0) @ replicate k ''h''"
    by (intro exI [of _ k]) simp
  from t3 h3 have c3: "probe_loop (env0\<lparr>cancel_at := Some 0\<rparr>) ''h'' [0, 1] world0 = (Inl ErrCanceled, world0)"
    by blast
  from t4 h4 have c4: "probe_loop ?e3 ''h'' [4] world0 = (Inr False, time_Sleep 4 (snd ?h3))"
    by blast
  from t4 h4 have c4': "now (time_Sleep 4 (snd ?h3)) = now (snd ?h3) + 4"
    by blast
  from t5 h5' have c5: "try_variants ?e2 ''a'' [False, True] world0 = (Inl ErrCanceled, snd ?p2)"
    by blast
  from t6 h6' have c6: "try_variants ?e7 ''a'' [True] world0
     = try_variants ?e7 ''a'' [] (emit (EvLog ''Failed to connect to apiserver'') (snd ?p7))"
    by blast
  show ?thesis
    using h1 h1' c1 h2 c2 h3 c3 h4 h4' c4 c4' h5' c5 h6' c6 by blast
qed

text \<open>
  The claim as stated fails: every probe fails and the signal fires at second 17, during
  the 4-second wait (from 16 to 20) after the fifth attempt on the internal variant.
  getKubeClient runs the wait to its end and returns, at second 20, the error "can not
  find a working kubernetes clientset", not the cancellation error.
\<close>

theorem C5_counterexample:
  "cancel_at (env_unreachable\<lparr>cancel_at := Some 17\<rparr>) = Some 17 \<and>
   fst (getKubeClient (env_unreachable\<lparr>cancel_at := Some 17\<rparr>) ''a'' world0) = Inl ErrNoClientset \<and>
   sleeps (trace (snd (getKubeClient (env_unreachable\<lparr>cancel_at := Some 17\<rparr>) ''a'' world0)))
     = [0, 1, 2, 3, 4, 0, 1, 2, 3, 4] \<and>
   now (snd (getKubeClient (env_unreachable\<lparr>cancel_at := Some 17\<rparr>) ''a'' world0)) = 20"
  by (simp add: run_simps)





text \<open>
  C8. When the construction of a delegated controller fails after a successful bootstrap
  and readiness poll, startCloudControllerManager returns the error. If it is the
  service controller, no child context has been made and no task started. If it is the
  node controller, the service controller's task has been started under the child
  context, and the cancel function of that context is called right after the failure is
  logged. Either way no task started by a failed launch is left under a context that was
  not cancelled, and nothing counts as launched. Run leaves the cluster out of the map,
  and whenever the loop reaches a listed cluster that is not in the map, with the signal
  not fired, it starts the bootstrap of that cluster again.
\<close>

theorem C8_construction_failure:
  "(PollImmediateWithContext e 1 30 (healthz_cond e k) w = (None, w1) \<and>
    servicecontroller_New e (step w1) x = Some err \<longrightarrow>
      (\<exists>w'. startCloudControllerManager e x k cl w = (Inl err, w') \<and>
            trace w' = trace w1 @ [EvServiceNew x, EvLog ''Failed to start service controller''] \<and>
            next_ctx w' = next_ctx w1)) \<and>
   (PollImmediateWithContext e 1 30 (healthz_cond e k) w = (None, w1) \<and>
    servicecontroller_New e (step w1) x = None \<and>
    NewCloudNodeController e (Suc (step w1)) x = Some err \<longrightarrow>
      (\<exists>w'. startCloudControllerManager e x k cl w = (Inl err, w') \<and>
            trace w' = trace w1 @ [EvServiceNew x, EvServiceRun x (next_ctx w1), EvNodeNew x,
                                   EvLog ''Failed to start node controller'',
                                   EvCancel (next_ctx w1)])) \<and>
   (startCloudControllerManager e x k cl w = (Inl err, w') \<longrightarrow>
      orphans (new_events w w') = [] \<and> launched (new_events w w') = []) \<and>
   (map_of (clusters c) x = None \<and> getKubeClient e x w = (Inr k, w1) \<and>
    startCloudControllerManager e x k (Cloud x) (emit (EvProviderNew x) w1) = (Inl err, w2) \<longrightarrow>
      add_cluster e x (c, w)
        = (c, emit (EvLog ''Failed to start cloud controller for cluster'') w2)) \<and>
   (map_of (clusters c) x = None \<and> \<not> ctx_Done e w \<longrightarrow>
      (\<exists>es. trace (snd (snd (add_new e (x # xs) (c, w)))) = trace w @ EvKubeConfig x False # es))"
proof (intro conjI impI)
  assume "PollImmediateWithContext e 1 30 (healthz_cond e k) w = (None, w1) \<and>
    servicecontroller_New e (step w1) x = Some err"
  then show "\<exists>w'. startCloudControllerManager e x k cl w = (Inl err, w') \<and>
            trace w' = trace w1 @ [EvServiceNew x, EvLog ''Failed to start service controller''] \<and>
            next_ctx w' = next_ctx w1"
    by (simp add: startCCM_service_failed)
next
  assume "PollImmediateWithContext e 1 30 (healthz_cond e k) w = (None, w1) \<and>
    servicecontroller_New e (step w1) x = None \<and>
    NewCloudNodeController e (Suc (step w1)) x = Some err"
  then show "\<exists>w'. startCloudControllerManager e x k cl w = (Inl err, w') \<and>
            trace w' = trace w1 @ [EvServiceNew x, EvServiceRun x (next_ctx w1), EvNodeNew x,
                                   EvLog ''Failed to start node controller'',
                                   EvCancel (next_ctx w1)]"
    by (simp add: startCCM_node_failed)
next
  assume a: "startCloudControllerManager e x k cl w = (Inl err, w')"
  from startCCM_error_no_orphans [OF a]
  show "orphans (new_events w w') = []" and "launched (new_events w w') = []"
    by blast+
next
  assume "map_of (clusters c) x = None \<and> getKubeClient e x w = (Inr k, w1) \<and>
    startCloudControllerManager e x k (Cloud x) (emit (EvProviderNew x) w1) = (Inl err, w2)"
  then show "add_cluster e x (c, w)
        = (c, emit (EvLog ''Failed to start cloud controller for cluster'') w2)"
    by (simp add: add_cluster_launch_failed)
next
  assume "map_of (clusters c) x = None \<and> \<not> ctx_Done e w"
  then show "\<exists>es. trace (snd (snd (add_new e (x # xs) (c, w)))) = trace w @ EvKubeConfig x False # es"
    by (elim conjE) (rule add_new_retries)
qed

theorem C8_construction_failure_witness:
  "(PollImmediateWithContext env_no_service 1 30 (healthz_cond env_no_service (KubeClient (RestConfig ''a''))) world0 = (None, call env_no_service (EvHealthz (KubeClient (RestConfig ''a''))) world0) \<and> servicecontroller_New env_no_service (step (call env_no_service (EvHealthz (KubeClient (RestConfig ''a''))) world0)) ''a'' = Some (ErrExternal ''no load balancer support'')) \<and>
   (\<exists>w'. startCloudControllerManager env_no_service ''a'' (KubeClient (RestConfig ''a'')) (Cloud ''a'') world0 = (Inl (ErrExternal ''no load balancer support''), w') \<and> trace w' = trace (call env_no_service (EvHealthz (KubeClient (RestConfig ''a''))) world0) @ [EvServiceNew ''a'', EvLog ''Failed to start service controller''] \<and> next_ctx w' = next_ctx (call env_no_service (EvHealthz (KubeClient (RestConfig ''a''))) world0)) \<and>
   (PollImmediateWithContext env_no_node 1 30 (healthz_cond env_no_node (KubeClient (RestConfig ''a''))) world0 = (None, call env_no_node (EvHealthz (KubeClient (RestConfig ''a''))) world0) \<and> servicecontroller_New env_no_node (step (call env_no_node (EvHealthz (KubeClient (RestConfig ''a''))) world0)) ''a'' = None \<and> NewCloudNodeController env_no_node (Suc (step (call env_no_node (EvHealthz (KubeClient (RestConfig ''a''))) world0))) ''a'' = Some (ErrExternal ''no instances support'')) \<and>
   (\<exists>w'. startCloudControllerManager env_no_node ''a'' (KubeClient (RestConfig ''a'')) (Cloud ''a'') world0 = (Inl (ErrExternal ''no instances support''), w') \<and> trace w' = trace (call env_no_node (EvHealthz (KubeClient (RestConfig ''a''))) world0) @ [EvServiceNew ''a'', EvServiceRun ''a'' (next_ctx (call env_no_node (EvHealthz (KubeClient (RestConfig ''a''))) world0)), EvNodeNew ''a'', EvLog ''Failed to start node controller'', EvCancel (next_ctx (call env_no_node (EvHealthz (KubeClient (RestConfig ''a''))) world0))]) \<and>
   (startCloudControllerManager env_no_node ''a'' (KubeClient (RestConfig ''a'')) (Cloud ''a'') world0 = (Inl (ErrExternal ''no instances support''), snd (startCloudControllerManager env_no_node ''a'' (KubeClient (RestConfig ''a'')) (Cloud ''a'') world0))) \<and>
   (orphans (new_events world0 (snd (startCloudControllerManager env_no_node ''a'' (KubeClient (RestConfig ''a'')) (Cloud ''a'') world0))) = [] \<and> launched (new_events world0 (snd (startCloudControllerManager env_no_node ''a'' (KubeClient (RestConfig ''a'')) (Cloud ''a'') world0))) = []) \<and>
   (map_of (clusters New) ''a'' = None \<and> getKubeClient env_no_node ''a'' world0 = (Inr (KubeClient (RestConfig ''a'')), snd (getKubeClient env_no_node ''a'' world0)) \<and> startCloudControllerManager env_no_node ''a'' (KubeClient (RestConfig ''a'')) (Cloud ''a'') (emit (EvProviderNew ''a'') (snd (getKubeClient env_no_node ''a'' world0))) = (Inl (ErrExternal ''no instances support''), snd (startCloudControllerManager env_no_node ''a'' (KubeClient (RestConfig ''a'')) (Cloud ''a'') (emit (EvProviderNew ''a'') (snd (getKubeClient env_no_node ''a'' world0)))))) \<and>
   (add_cluster env_no_node ''a'' (New, world0) = (New, emit (EvLog ''Failed to start cloud controller for cluster'') (snd (startCloudControllerManager env_no_node ''a'' (KubeClient (RestConfig ''a'')) (Cloud ''a'') (emit (EvProviderNew ''a'') (snd (getKubeClient env_no_node ''a'' world0))))))) \<and>
   (map_of (clusters New) ''a'' = None \<and> \<not> ctx_Done env_no_node world0) \<and>
   (\<exists>es. trace (snd (snd (add_new env_no_node [''a''] (New, world0)))) = trace world0 @ EvKubeConfig ''a'' False # es)"
proof -
  have h1_0: "PollImmediateWithContext env_no_service 1 30 (healthz_cond env_no_service (KubeClient (RestConfig ''a''))) world0 = (None, call env_no_service (EvHealthz (KubeClient (RestConfig ''a''))) world0) \<and> servicecontroller_New env_no_service (step (call env_no_service (EvHealthz (KubeClient (RestConfig ''a''))) world0)) ''a'' = Some (ErrExternal ''no load balancer support'')"
    by code_simp
  note t1 = C8_construction_failure [where e = env_no_service and k = "KubeClient (RestConfig ''a'')" and w = world0 and x = "''a''" and cl = "Cloud ''a''" and err = "ErrExternal ''no load balancer support''" and ?w1.0 = "call env_no_service (EvHealthz (KubeClient (RestConfig ''a''))) world0"]
  from t1 h1_0 have c1_0: "\<exists>w'. startCloudControllerManager env_no_service ''a'' (KubeClient (RestConfig ''a'')) (Cloud ''a'') world0 = (Inl (ErrExternal ''no load balancer support''), w') \<and> trace w' = trace (call env_no_service (EvHealthz (KubeClient (RestConfig ''a''))) world0) @ [EvServiceNew ''a'', EvLog ''Failed to start service controller''] \<and> next_ctx w' = next_ctx (call env_no_service (EvHealthz (KubeClient (RestConfig ''a''))) world0)"
    by blast
  have h2_0: "PollImmediateWithContext env_no_node 1 30 (healthz_cond env_no_node (KubeClient (RestConfig ''a''))) world0 = (None, call env_no_node (EvHealthz (KubeClient (RestConfig ''a''))) world0) \<and> servicecontroller_New env_no_node (step (call env_no_node (EvHealthz (KubeClient (RestConfig ''a''))) world0)) ''a'' = None \<and> NewCloudNodeController env_no_node (Suc (step (call env_no_node (EvHealthz (KubeClient (RestConfig ''a''))) world0))) ''a'' = Some (ErrExternal ''no instances support'')"
    by code_simp
  note t2 = C8_construction_failure [where e = env_no_node and k = "KubeClient (RestConfig ''a'')" and w = world0 and x = "''a''" and cl = "Cloud ''a''" and err = "ErrExternal ''no instances support''" and ?w1.0 = "call env_no_node (EvHealthz (KubeClient (RestConfig ''a''))) world0"]
  from t2 h2_0 have c2_0: "\<exists>w'. startCloudControllerManager env_no_node ''a'' (KubeClient (RestConfig ''a'')) (Cloud ''a'') world0 = (Inl (ErrExternal ''no instances support''), w') \<and> trace w' = trace (call env_no_node (EvHealthz (KubeClient (RestConfig ''a''))) world0) @ [EvServiceNew ''a'', EvServiceRun ''a'' (next_ctx (call env_no_node (EvHealthz (KubeClient (RestConfig ''a''))) world0)), EvNodeNew ''a'', EvLog ''Failed to start node controller'', EvCancel (next_ctx (call env_no_node (EvHealthz (KubeClient (RestConfig ''a''))) world0))]"
    by blast
  have h3_0: "startCloudControllerManager env_no_node ''a'' (KubeClient (RestConfig ''a'')) (Cloud ''a'') world0 = (Inl (ErrExternal ''no instances support''), snd (startCloudControllerManager env_no_node ''a'' (KubeClient (RestConfig ''a'')) (Cloud ''a'') world0))"
    by code_simp
  note t3 = C8_construction_failure [where e = env_no_node and k = "KubeClient (RestConfig ''a'')" and w = world0 and x = "''a''" and cl = "Cloud ''a''" and err = "ErrExternal ''no instances support''" and w' = "snd (startCloudControllerManager env_no_node ''a'' (KubeClient (RestConfig ''a'')) (Cloud ''a'') world0)"]
  from t3 h3_0 have c3_0: "orphans (new_events world0 (snd (startCloudControllerManager env_no_node ''a'' (KubeClient (RestConfig ''a'')) (Cloud ''a'') world0))) = [] \<and> launched (new_events world0 (snd (startCloudControllerManager env_no_node ''a'' (KubeClient (RestConfig ''a'')) (Cloud ''a'') world0))) = []"
    by blast
  have h4_0: "map_of (clusters New) ''a'' = None \<and> getKubeClient env_no_node ''a'' world0 = (Inr (KubeClient (RestConfig ''a'')), snd (getKubeClient env_no_node ''a'' world0)) \<and> startCloudControllerManager env_no_node ''a'' (KubeClient (RestConfig ''a'')) (Cloud ''a'') (emit (EvProviderNew ''a'') (snd (getKubeClient env_no_node ''a'' world0))) = (Inl (ErrExternal ''no instances support''), snd (startCloudControllerManager env_no_node ''a'' (KubeClient (RestConfig ''a'')) (Cloud ''a'') (emit (EvProviderNew ''a'') (snd (getKubeClient env_no_node ''a'' world0)))))"
    by code_simp
  note t4 = C8_construction_failure [where e = env_no_node and c = New and x = "''a''" and w = world0 and k = "KubeClient (RestConfig ''a'')" and err = "ErrExternal ''no instances support''" and ?w1.0 = "snd (getKubeClient env_no_node ''a'' world0)" and ?w2.0 = "snd (startCloudControllerManager env_no_node ''a'' (KubeClient (RestConfig ''a'')) (Cloud ''a'') (emit (EvProviderNew ''a'') (snd (getKubeClient env_no_node ''a'' world0))))"]
  from t4 h4_0 have c4_0: "add_cluster env_no_node ''a'' (New, world0) = (New, emit (EvLog ''Failed to start cloud controller for cluster'') (snd (startCloudControllerManager env_no_node ''a'' (KubeClient (RestConfig ''a'')) (Cloud ''a'') (emit (EvProviderNew ''a'') (snd (getKubeClient env_no_node ''a'' world0))))))"
    by blast
  have h5_0: "map_of (clusters New) ''a'' = None \<and> \<not> ctx_Done env_no_node world0"
    by (simp add: env_no_service_def env_no_node_def launch_simps run_simps)
  note t5 = C8_construction_failure [where e = env_no_node and c = New and x = "''a''" and w = world0 and xs = "[]"]
  from t5 h5_0 have c5_0: "\<exists>es. trace (snd (snd (add_new env_no_node [''a''] (New, world0)))) = trace world0 @ EvKubeConfig ''a'' False # es"
    by blast
  show ?thesis
    using h1_0 c1_0 h2_0 c2_0 h3_0 c3_0 h4_0 c4_0 h5_0 c5_0 by blast
qed

text \<open>
  C9. Run returns only when the process-level cancellation signal has fired: whenever it
  returns, the signal was found fired at the check it returned from, and the deferred
  cleanup is the last thing it did, run exactly once (the loop itself never lists
  containers by label). In an environment whose signal never fires Run does not return,
  however many passes it is given and whatever the listings, bootstraps and launches
  answer. When the signal fires at second \<open>t\<close>, Run does return: within one pass more
  than the 30-second sleeps needed to reach \<open>t\<close>.
\<close>

theorem C9_run_returns_on_signal_only:
  "(Run e n (c, w) = Some (c', w') \<longrightarrow>
      (\<exists>w1. ctx_Done e w1 \<and> w' = cleanup e w1 \<and> sweeps (trace w1) = sweeps (trace w)) \<and>
      sweeps (trace w') = Suc (sweeps (trace w))) \<and>
   (cancel_at e = None \<longrightarrow> Run e n (c, w) = None) \<and>
   (cancel_at e = Some t \<and> t \<le> now w + 30 * n \<longrightarrow> Run e (Suc n) (c, w) \<noteq> None)"
proof (intro conjI impI)
  assume a: "Run e n (c, w) = Some (c', w')"
  from Run_returns [OF a]
  show "\<exists>w1. ctx_Done e w1 \<and> w' = cleanup e w1 \<and> sweeps (trace w1) = sweeps (trace w)" .
  then show "sweeps (trace w') = Suc (sweeps (trace w))"
    by (auto simp: sweeps_cleanup)
next
  assume "cancel_at e = None"
  then show "Run e n (c, w) = None" by (rule Run_never_without_signal)
next
  assume "cancel_at e = Some t \<and> t \<le> now w + 30 * n"
  then show "Run e (Suc n) (c, w) \<noteq> None" using Run_returns_after_signal by blast
qed

theorem C9_run_returns_on_signal_only_witness:
  "Run (env0\<lparr>cancel_at := Some 1\<rparr>) 2 (New, world0)
     = Some (New, \<lparr>now = 30, step = 2, next_ctx = 0,
                   trace = [EvList, EvSleep 30, EvListByLabel ''label'']\<rparr>) \<and>
   sweeps [EvList, EvSleep 30, EvListByLabel ''label''] = Suc (sweeps (trace world0)) \<and>
   cancel_at env_list_fails = None \<and>
   Run env_list_fails 3 (New, world0) = None \<and>
   cancel_at (env0\<lparr>cancel_at := Some 1\<rparr>) = Some 1 \<and> 1 \<le> now world0 + 30 * 1 \<and>
   Run (env0\<lparr>cancel_at := Some 1\<rparr>) (Suc 1) (New, world0) \<noteq> None"
proof -
  let ?e = "env0\<lparr>cancel_at := Some 1\<rparr>"
  let ?w = "\<lparr>now = 30, step = 2, next_ctx = 0,
             trace = [EvList, EvSleep 30, EvListByLabel ''label'']\<rparr>"
  have h1: "Run ?e 2 (New, world0) = Some (New, ?w)"
    by (simp add: numeral_2_eq_2 cycle_def cleanup_def New_def run_simps)
  have h2: "cancel_at env_list_fails = None"
    by (simp add: env_list_fails_def env0_def)
  have h3: "cancel_at ?e = Some 1 \<and> 1 \<le> now world0 + 30 * 1"
    by simp
  note t1 = C9_run_returns_on_signal_only [where e = ?e and n = 2 and c = New and w = world0
              and c' = New and w' = ?w]
  note t2 = C9_run_returns_on_signal_only [where e = env_list_fails and n = 3 and c = New
              and w = world0]
  note t3 = C9_run_returns_on_signal_only [where e = ?e and n = 1 and c = New and w = world0
              and t = 1]
  from t1 h1 have "sweeps (trace ?w) = Suc (sweeps (trace world0))" by blast
  then have c1: "sweeps [EvList, EvSleep 30, EvListByLabel ''label''] = Suc (sweeps (trace world0))"
    by simp
  from t2 h2 have c2: "Run env_list_fails 3 (New, world0) = None" by blast
  from t3 h3 have c3: "Run ?e (Suc 1) (New, world0) \<noteq> None" by blast
  show ?thesis using h1 c1 h2 c2 h3 c3 by blast
qed

text \<open>
  C10. When \<open>container.ListByLabel\<close> fails in the cleanup pass, cleanup logs the error and
  returns: the listing and the log line are all it adds to the trace, and no
  \<open>container.Delete\<close> is attempted, whatever slice came with the error. When the listing
  succeeds, a deletion is attempted for every listed container, in order, whether or not
  earlier deletions failed.
\<close>

theorem C10_cleanup_list_failure:
  "(snd (container_ListByLabel e (step w) (NodeCCMLabelKey e)) \<noteq> None \<longrightarrow>
      trace (cleanup e w) =
        trace w @ [EvListByLabel (NodeCCMLabelKey e), EvLog ''can't list containers''] \<and>
      deletions (trace (cleanup e w)) = deletions (trace w)) \<and>
   (snd (container_ListByLabel e (step w) (NodeCCMLabelKey e)) = None \<longrightarrow>
      deletions (trace (cleanup e w)) =
        deletions (trace w) @ fst (container_ListByLabel e (step w) (NodeCCMLabelKey e)))"
  by (cases "container_ListByLabel e (step w) (NodeCCMLabelKey e)")
     (auto simp: cleanup_def Let_def trace_emit trace_call deletions_append
                 deletions_delete_containers)

theorem C10_cleanup_list_failure_witness:
  "snd (container_ListByLabel
          (env0\<lparr>container_ListByLabel := (\<lambda>n l. ([''x''], Some (ErrExternal ''docker down'')))\<rparr>)
          (step world0) ''label'') \<noteq> None \<and>
   trace (cleanup (env0\<lparr>container_ListByLabel := (\<lambda>n l. ([''x''], Some (ErrExternal ''docker down'')))\<rparr>) world0)
     = [EvListByLabel ''label'', EvLog ''can't list containers''] \<and>
   snd (container_ListByLabel
          (env0\<lparr>container_ListByLabel := (\<lambda>n l. ([''x'', ''y''], None)),
                container_Delete := (\<lambda>n i. if i = ''x'' then Some (ErrExternal ''busy'') else None)\<rparr>)
          (step world0) ''label'') = None \<and>
   deletions (trace (cleanup
          (env0\<lparr>container_ListByLabel := (\<lambda>n l. ([''x'', ''y''], None)),
                container_Delete := (\<lambda>n i. if i = ''x'' then Some (ErrExternal ''busy'') else None)\<rparr>)
          world0)) = [''x'', ''y'']"
  using
    C10_cleanup_list_failure
      [of "env0\<lparr>container_ListByLabel := (\<lambda>n l. ([''x''], Some (ErrExternal ''docker down'')))\<rparr>" world0]
    C10_cleanup_list_failure
      [of "env0\<lparr>container_ListByLabel := (\<lambda>n l. ([''x'', ''y''], None)),
                container_Delete := (\<lambda>n i. if i = ''x'' then Some (ErrExternal ''busy'') else None)\<rparr>" world0]
  by (simp add: env0_def world0_def)

end
